theory Spec2Isabelle
  imports Complex_Main "HOL-Library.Word" "HOL-Library.Monad_Syntax"
begin

unbundle bit_operations_syntax

section \<open>Machine arithmetic\<close>

text \<open>
  \<^verbatim>\<open>float\<close> and \<^verbatim>\<open>double\<close> are the IEEE 754 formats binary32 and binary64. An arithmetic
  operation or a conversion yields its exact result rounded to the nearest value of the
  format, a tie going to the even significand. A value of either format is the real
  number it stands for, so \<open>ieee_round p emin emax\<close> maps a real number to the nearest one
  with a significand of \<open>p\<close> bits and an exponent of at least \<open>emin\<close>, gradual underflow
  included. \<open>binade n e y\<close> is the exponent of \<open>y\<close>, found by counting up from \<open>e\<close> for at
  most \<open>n\<close> steps, so that it stays within \<open>emin\<close> and \<open>emax\<close>. A number of magnitude
  \<open>2^(emax+1)\<close> or more, which the machine turns into an infinity, is rounded in the top
  binade here: infinities and NaN are outside the model.
\<close>

definition round_even :: "real \<Rightarrow> int" where
  "round_even x =
     (let f = \<lfloor>x\<rfloor>; r = x - of_int f in
      if r < 1 / 2 then f else if 1 / 2 < r then f + 1 else if even f then f else f + 1)"

fun binade :: "nat \<Rightarrow> int \<Rightarrow> real \<Rightarrow> int" where
  "binade 0 e y = e"
| "binade (Suc n) e y = (if 2 powi (e + 1) \<le> y then binade n (e + 1) y else e)"

definition ieee_round :: "nat \<Rightarrow> int \<Rightarrow> int \<Rightarrow> real \<Rightarrow> real" where
  "ieee_round p emin emax x =
     (let e = binade (nat (emax - emin)) emin \<bar>x\<bar>;
          ulp = 2 powi (e - (int p - 1))
      in of_int (round_even (x / ulp)) * ulp)"

definition to_float :: "real \<Rightarrow> real" where
  "to_float x = ieee_round 24 (- 126) 127 x"

definition to_double :: "real \<Rightarrow> real" where
  "to_double x = ieee_round 53 (- 1022) 1023 x"

text \<open>
  \<^verbatim>\<open>x + y\<close> where one operand is a \<^verbatim>\<open>double\<close> (a \<^verbatim>\<open>float\<close> or an \<^verbatim>\<open>int\<close> operand is
  converted to \<^verbatim>\<open>double\<close> first, without loss); \<^verbatim>\<open>w += d\<close> where \<open>w\<close> is a \<^verbatim>\<open>float\<close> and
  \<open>d\<close> a \<^verbatim>\<open>double\<close> (the sum is a \<^verbatim>\<open>double\<close>, converted to \<^verbatim>\<open>float\<close> by the assignment);
  \<^verbatim>\<open>a * n\<close> where \<open>a\<close> is a \<^verbatim>\<open>float\<close> and \<open>n\<close> an \<^verbatim>\<open>int\<close> (\<open>n\<close> is converted to \<^verbatim>\<open>float\<close>
  and the product is a \<^verbatim>\<open>float\<close>).
\<close>

definition double_plus :: "real \<Rightarrow> real \<Rightarrow> real" where
  "double_plus x y = to_double (x + y)"

definition float_plus_assign :: "real \<Rightarrow> real \<Rightarrow> real" where
  "float_plus_assign w d = to_float (double_plus w d)"

definition float_times_int :: "real \<Rightarrow> int \<Rightarrow> real" where
  "float_times_int a n = to_float (a * to_float (real_of_int n))"

text \<open>
  An \<^verbatim>\<open>int\<close> has 32 bits. \<open>int32 x\<close> is the \<^verbatim>\<open>int\<close> that an operation with the mathematical
  result \<open>x\<close> yields: the result wraps around.
\<close>

definition int32 :: "int \<Rightarrow> int" where
  "int32 x = sint (word_of_int x :: 32 word)"

definition int_add :: "int \<Rightarrow> int \<Rightarrow> int" where
  "int_add x y = int32 (x + y)"

definition int_sub :: "int \<Rightarrow> int \<Rightarrow> int" where
  "int_sub x y = int32 (x - y)"

section \<open>Collaborators of agent.h\<close>

text \<open>
  Modelled from the spec: \<^verbatim>\<open>board.h\<close> is not among the sources. The agents use a board
  only through a cell read by linear index (\<^verbatim>\<open>b(i)\<close>), a directional slide that changes
  the board in place and returns a reward or the sentinel \<open>-1\<close>, a clockwise rotation and
  a horizontal reflection (both in place), and a default-constructed board. The board
  type stays abstract (\<open>'b\<close>); the interface is a record of functions, each in-place
  operation returning the changed board.
\<close>

record 'b board_ops =
  cell_at :: "'b \<Rightarrow> nat \<Rightarrow> 32 word"
  slide :: "'b \<Rightarrow> nat \<Rightarrow> int \<times> 'b"
  rotate_clockwise :: "'b \<Rightarrow> 'b"
  reflect_horizontal :: "'b \<Rightarrow> 'b"
  new_board :: "'b"

text \<open>
  Modelled from the spec: \<^verbatim>\<open>action.h\<close> is not among the sources. \<^verbatim>\<open>action()\<close> is the
  rejection action, \<^verbatim>\<open>action::slide(op)\<close> a slide in direction \<open>op\<close>.
\<close>

datatype action = Reject | Slide int

text \<open>
  Modelled from the spec: \<^verbatim>\<open>weight.h\<close> is not among the sources. A shard is a numeric
  array of fixed length addressed from 0. The element type is declared in \<^verbatim>\<open>weight.h\<close>; it
  is taken to be \<^verbatim>\<open>float\<close>, the type of the learning rate, so \<^verbatim>\<open>w[i] += d\<close> with a
  \<^verbatim>\<open>double\<close> \<open>d\<close> rounds the sum to \<^verbatim>\<open>double\<close> and then to \<^verbatim>\<open>float\<close>. An access outside
  the array is undefined behaviour in the source and \<open>None\<close> here.
\<close>

record weight =
  wsize :: nat
  wvalue :: "nat \<Rightarrow> real"

definition weight_at :: "weight \<Rightarrow> nat \<Rightarrow> real option" where
  "weight_at w i = (if i < wsize w then Some (wvalue w i) else None)"

definition weight_add :: "weight \<Rightarrow> nat \<Rightarrow> real \<Rightarrow> weight option" where
  "weight_add w i d =
     (if i < wsize w
      then Some (w\<lparr>wvalue := (wvalue w)(i := float_plus_assign (wvalue w i) d)\<rparr>)
      else None)"

definition new_weight :: "nat \<Rightarrow> weight" where
  "new_weight n = \<lparr>wsize = n, wvalue = (\<lambda>_. 0)\<rparr>"

section \<open>The weight table store\<close>

type_synonym network = "weight list"

text \<open>
  A table index is an \<^verbatim>\<open>int\<close> in the source; used as a position it is converted to an
  unsigned 64-bit size by sign extension.
\<close>

definition address :: "32 word \<Rightarrow> nat" where
  "address index = unat (scast index :: 64 word)"

text \<open>\<^verbatim>\<open>net[s][index]\<close> read, and \<^verbatim>\<open>net[s][index] += d\<close>.\<close>

definition net_at :: "network \<Rightarrow> nat \<Rightarrow> 32 word \<Rightarrow> real option" where
  "net_at net s index =
     (if s < length net then weight_at (net ! s) (address index) else None)"

definition net_add :: "network \<Rightarrow> nat \<Rightarrow> 32 word \<Rightarrow> real \<Rightarrow> network option" where
  "net_add net s index d =
     (if s < length net
      then (case weight_add (net ! s) (address index) d of
              None \<Rightarrow> None
            | Some w \<Rightarrow> Some (net[s := w]))
      else None)"

text \<open>A counted loop whose body may run into undefined behaviour.\<close>

fun for_loop :: "('a \<Rightarrow> 's \<Rightarrow> 's option) \<Rightarrow> 'a list \<Rightarrow> 's \<Rightarrow> 's option" where
  "for_loop body [] s = Some s"
| "for_loop body (x # xs) s =
     (case body x s of None \<Rightarrow> None | Some s' \<Rightarrow> for_loop body xs s')"

section \<open>four_tuple_agent: feature extraction, value, update\<close>

definition net_index :: "32 word \<Rightarrow> 32 word \<Rightarrow> 32 word \<Rightarrow> 32 word \<Rightarrow> 32 word" where
  "net_index index0 index1 index2 index3 =
     ((index0 OR push_bit 4 index1) OR push_bit 8 index2) OR push_bit 12 index3"

definition four_row_index :: "'b board_ops \<Rightarrow> 'b \<Rightarrow> nat \<Rightarrow> 32 word" where
  "four_row_index ops b i =
     (let index_base = 4 * i in
      net_index (cell_at ops b index_base) (cell_at ops b (index_base + 1))
                (cell_at ops b (index_base + 2)) (cell_at ops b (index_base + 3)))"

definition four_col_index :: "'b board_ops \<Rightarrow> 'b \<Rightarrow> nat \<Rightarrow> 32 word" where
  "four_col_index ops b i =
     net_index (cell_at ops b (i + 0)) (cell_at ops b (i + 4))
               (cell_at ops b (i + 8)) (cell_at ops b (i + 12))"

definition four_calculate_state_value ::
  "'b board_ops \<Rightarrow> network \<Rightarrow> 'b \<Rightarrow> real option" where
  "four_calculate_state_value ops net b =
     for_loop (\<lambda>i state_value.
        case net_at net i (four_row_index ops b i) of
          None \<Rightarrow> None
        | Some w \<Rightarrow>
            (case net_at net (4 + i) (four_col_index ops b i) of
               None \<Rightarrow> None
             | Some w' \<Rightarrow> Some (double_plus (double_plus state_value w) w')))
       [0..<4] 0"

definition four_update_net ::
  "'b board_ops \<Rightarrow> network \<Rightarrow> 'b \<Rightarrow> real \<Rightarrow> network option" where
  "four_update_net ops net b update_value =
     for_loop (\<lambda>i net.
        case net_add net i (four_row_index ops b i) update_value of
          None \<Rightarrow> None
        | Some net' \<Rightarrow> net_add net' (i + 4) (four_col_index ops b i) update_value)
       [0..<4] net"

section \<open>six_tuple_agent: feature extraction, value, update\<close>

definition tuple_index :: "nat list list" where
  "tuple_index =
     [[0, 1, 2, 3, 4, 5], [4, 5, 6, 7, 8, 9], [5, 6, 7, 9, 10, 11], [9, 10, 11, 13, 14, 15]]"

text \<open>The inner loop over \<open>j\<close>: \<^verbatim>\<open>index |= fb(tuple_index[i][j]) << (4*j)\<close>.\<close>

definition six_index :: "'b board_ops \<Rightarrow> 'b \<Rightarrow> nat \<Rightarrow> 32 word" where
  "six_index ops fb i =
     fold (\<lambda>j index. index OR push_bit (4 * j) (cell_at ops fb (tuple_index ! i ! j)))
       [0..<6] 0"

text \<open>
  The loop over the four tuples, reading shards \<open>base + i\<close>; the source writes it out
  four times, with \<open>base\<close> being \<open>0\<close>, \<open>k*4\<close>, \<open>16\<close> and \<open>16+k*4\<close>.
\<close>

definition six_value_tuples ::
  "'b board_ops \<Rightarrow> network \<Rightarrow> 'b \<Rightarrow> nat \<Rightarrow> real \<Rightarrow> real option" where
  "six_value_tuples ops net fb base state_value =
     for_loop (\<lambda>i state_value.
        case net_at net (base + i) (six_index ops fb i) of
          None \<Rightarrow> None
        | Some w \<Rightarrow> Some (double_plus state_value w))
       [0..<4] state_value"

text \<open>The loop \<^verbatim>\<open>for(int k=1;k<=3;k++)\<close>: rotate, then the four tuples.\<close>

definition six_value_rotations ::
  "'b board_ops \<Rightarrow> network \<Rightarrow> nat \<Rightarrow> 'b \<times> real \<Rightarrow> ('b \<times> real) option" where
  "six_value_rotations ops net base start =
     for_loop (\<lambda>k (fb, state_value).
        let fb = rotate_clockwise ops fb in
        case six_value_tuples ops net fb (base + k * 4) state_value of
          None \<Rightarrow> None
        | Some state_value \<Rightarrow> Some (fb, state_value))
       [1..<4] start"

definition six_calculate_state_value ::
  "'b board_ops \<Rightarrow> network \<Rightarrow> 'b \<Rightarrow> real option" where
  "six_calculate_state_value ops net b = do {
     let fb = b;
     state_value \<leftarrow> six_value_tuples ops net fb 0 0;
     (fb, state_value) \<leftarrow> six_value_rotations ops net 0 (fb, state_value);
     let fb = reflect_horizontal ops b;
     state_value \<leftarrow> six_value_tuples ops net fb 16 state_value;
     (fb, state_value) \<leftarrow> six_value_rotations ops net 16 (fb, state_value);
     Some state_value
   }"

definition six_update_tuples ::
  "'b board_ops \<Rightarrow> 'b \<Rightarrow> nat \<Rightarrow> real \<Rightarrow> network \<Rightarrow> network option" where
  "six_update_tuples ops fb base update_value net =
     for_loop (\<lambda>i net. net_add net (base + i) (six_index ops fb i) update_value)
       [0..<4] net"

definition six_update_rotations ::
  "'b board_ops \<Rightarrow> nat \<Rightarrow> real \<Rightarrow> 'b \<times> network \<Rightarrow> ('b \<times> network) option" where
  "six_update_rotations ops base update_value start =
     for_loop (\<lambda>k (fb, net).
        let fb = rotate_clockwise ops fb in
        case six_update_tuples ops fb (base + k * 4) update_value net of
          None \<Rightarrow> None
        | Some net \<Rightarrow> Some (fb, net))
       [1..<4] start"

definition six_update_net ::
  "'b board_ops \<Rightarrow> network \<Rightarrow> 'b \<Rightarrow> real \<Rightarrow> network option" where
  "six_update_net ops net b update_value = do {
     let fb = b;
     net \<leftarrow> six_update_tuples ops fb 0 update_value net;
     (fb, net) \<leftarrow> six_update_rotations ops 0 update_value (fb, net);
     let fb = reflect_horizontal ops b;
     net \<leftarrow> six_update_tuples ops fb 16 update_value net;
     (fb, net) \<leftarrow> six_update_rotations ops 16 update_value (fb, net);
     Some net
   }"

section \<open>Agent state\<close>

text \<open>
  The members of \<^verbatim>\<open>agent\<close>, \<^verbatim>\<open>weight_agent\<close> and the two tuple agents. The episode value
  and reward sequences are \<^verbatim>\<open>std::vector<int>\<close>: their elements are the integers the
  \<^verbatim>\<open>int\<close>s stand for, and arithmetic on them is that of \<^verbatim>\<open>int\<close>. The learning rate
  \<open>alpha\<close> is a \<^verbatim>\<open>float\<close>.
\<close>

record 'b agent =
  meta :: "string \<rightharpoonup> string"
  net :: network
  alpha :: real
  episode_boards :: "'b list"
  episode_values :: "int list"
  episode_rewards :: "int list"

text \<open>\<^verbatim>\<open>v[i]\<close> on a vector: outside the vector it is undefined behaviour, \<open>None\<close> here.\<close>

definition vec_at :: "'a list \<Rightarrow> nat \<Rightarrow> 'a option" where
  "vec_at xs i = (if i < length xs then Some (xs ! i) else None)"

text \<open>
  The implicit conversion \<^verbatim>\<open>double\<close> to \<^verbatim>\<open>int\<close> of \<^verbatim>\<open>push_back\<close> into a
  \<^verbatim>\<open>std::vector<int>\<close>: the fractional part is discarded. A value whose integer part
  is outside the range of \<^verbatim>\<open>int\<close> is undefined behaviour in the source; the conversion
  is total here and yields that integer part.
\<close>

definition double_to_int :: "real \<Rightarrow> int" where
  "double_to_int x = (if x < 0 then \<lceil>x\<rceil> else \<lfloor>x\<rfloor>)"

definition opcode :: "nat list" where
  "opcode = [0, 1, 2, 3]"

definition open_episode :: "'b agent \<Rightarrow> 'b agent" where
  "open_episode st = st\<lparr>episode_boards := [], episode_rewards := [], episode_values := []\<rparr>"

section \<open>take_action\<close>

text \<open>The locals of \<^verbatim>\<open>take_action\<close> that survive an iteration of the loop over \<open>opcode\<close>.\<close>

record 'b candidate =
  best_reward :: int
  best_action :: int
  best_after_state_value :: real
  best_after :: "'b"

record 'b six_candidate = "'b candidate" +
  best_episode_after_state_value :: real

text \<open>One iteration of the loop of \<^verbatim>\<open>four_tuple_agent::take_action\<close>.\<close>

definition four_try ::
  "'b board_ops \<Rightarrow> network \<Rightarrow> 'b \<Rightarrow> nat \<Rightarrow> 'b candidate \<Rightarrow> 'b candidate option" where
  "four_try ops nt b op best =
     (let (reward, after) = slide ops b op in
      if reward = - 1 then Some best
      else
        case four_calculate_state_value ops nt after of
          None \<Rightarrow> None
        | Some v \<Rightarrow>
            (let after_state_value = double_plus v (real_of_int reward) in
             if after_state_value > best_after_state_value best \<or> best_reward best = - 1
             then Some (best\<lparr>best_after_state_value := after_state_value,
                               best_action := int op,
                               best_reward := reward,
                               best_after := after\<rparr>)
             else Some best))"

definition four_take_action ::
  "'b board_ops \<Rightarrow> 'b agent \<Rightarrow> 'b \<Rightarrow> (action \<times> 'b agent) option" where
  "four_take_action ops st b =
     (case for_loop (four_try ops (net st) b) opcode
             \<lparr>best_reward = - 1, best_action = - 1, best_after_state_value = - 1000,
              best_after = new_board ops\<rparr> of
        None \<Rightarrow> None
      | Some best \<Rightarrow>
          if best_reward best \<noteq> - 1
          then Some (Slide (best_action best),
                 st\<lparr>episode_boards := episode_boards st @ [best_after best],
                    episode_rewards := episode_rewards st @ [best_reward best],
                    episode_values :=
                      episode_values st @ [double_to_int (best_after_state_value best)]\<rparr>)
          else Some (Reject, st))"

text \<open>One iteration of the loop of \<^verbatim>\<open>six_tuple_agent::take_action\<close>.\<close>

definition six_try ::
  "'b board_ops \<Rightarrow> network \<Rightarrow> 'b \<Rightarrow> nat \<Rightarrow> 'b six_candidate \<Rightarrow> 'b six_candidate option" where
  "six_try ops nt b op best =
     (let (reward, after) = slide ops b op in
      if reward = - 1 then Some best
      else
        case six_calculate_state_value ops nt after of
          None \<Rightarrow> None
        | Some episode_after_state_value \<Rightarrow>
            (let after_state_value = double_plus episode_after_state_value (real_of_int reward) in
             if after_state_value > best_after_state_value best \<or> best_reward best = - 1
             then Some (best\<lparr>best_after_state_value := after_state_value,
                               best_action := int op,
                               best_reward := reward,
                               best_after := after,
                               best_episode_after_state_value := episode_after_state_value\<rparr>)
             else Some best))"

definition six_take_action ::
  "'b board_ops \<Rightarrow> 'b agent \<Rightarrow> 'b \<Rightarrow> (action \<times> 'b agent) option" where
  "six_take_action ops st b =
     (case for_loop (six_try ops (net st) b) opcode
             \<lparr>best_reward = - 1, best_action = - 1, best_after_state_value = - 1000,
              best_after = new_board ops, best_episode_after_state_value = - 1000\<rparr> of
        None \<Rightarrow> None
      | Some best \<Rightarrow>
          if best_reward best \<noteq> - 1
          then Some (Slide (best_action best),
                 st\<lparr>episode_boards := episode_boards st @ [best_after best],
                    episode_rewards := episode_rewards st @ [best_reward best],
                    episode_values :=
                      episode_values st @ [double_to_int (best_episode_after_state_value best)]\<rparr>)
          else Some (Reject, st))"

section \<open>close_episode\<close>

text \<open>
  One iteration of \<^verbatim>\<open>for(int i = len-1;i >= 0;i--)\<close>, for either agent: \<open>update\<close> is the
  agent's \<^verbatim>\<open>update_net\<close>.
\<close>

definition train_step ::
  "(network \<Rightarrow> 'b \<Rightarrow> real \<Rightarrow> network option) \<Rightarrow> nat \<Rightarrow> 'b agent \<Rightarrow> 'b agent option" where
  "train_step update i st =
     (case vec_at (episode_values st) (i + 1) of None \<Rightarrow> None | Some v1 \<Rightarrow>
     (case vec_at (episode_rewards st) (i + 1) of None \<Rightarrow> None | Some r1 \<Rightarrow>
     (case vec_at (episode_values st) i of None \<Rightarrow> None | Some v0 \<Rightarrow>
     (case vec_at (episode_boards st) i of None \<Rightarrow> None | Some b \<Rightarrow>
        (let update_value = float_times_int (alpha st) (int_sub (int_add v1 r1) v0) in
         case update (net st) b update_value of
           None \<Rightarrow> None
         | Some nt \<Rightarrow> Some (st\<lparr>net := nt\<rparr>))))))"

definition close_episode ::
  "(network \<Rightarrow> 'b \<Rightarrow> real \<Rightarrow> network option) \<Rightarrow> 'b agent \<Rightarrow> 'b agent option" where
  "close_episode update st =
     (let st = st\<lparr>episode_rewards := episode_rewards st @ [0]\<rparr>;
          st = st\<lparr>episode_values := episode_values st @ [0]\<rparr>;
          len = length (episode_boards st)
      in for_loop (train_step update) (rev [0..<len]) st)"

definition four_close_episode :: "'b board_ops \<Rightarrow> 'b agent \<Rightarrow> 'b agent option" where
  "four_close_episode ops st = close_episode (four_update_net ops) st"

definition six_close_episode :: "'b board_ops \<Rightarrow> 'b agent \<Rightarrow> 'b agent option" where
  "six_close_episode ops st = close_episode (six_update_net ops) st"

section \<open>A concrete board for the examples\<close>

text \<open>
  A grid of 16 cells in row-major order with the rotation and the reflection of a
  4x4 grid. The rules of the game are in \<^verbatim>\<open>board.h\<close>; the slide of this board is a
  stand-in for them: direction \<open>op\<close> is legal when cell \<open>op\<close> is not empty, it empties
  that cell and pays the value the cell held.
\<close>

definition grid_slide :: "32 word list \<Rightarrow> nat \<Rightarrow> int \<times> 32 word list" where
  "grid_slide b op =
     (if op < length b \<and> b ! op \<noteq> 0 then (uint (b ! op), b[op := 0]) else (- 1, b))"

definition grid_ops :: "32 word list board_ops" where
  "grid_ops =
     \<lparr>cell_at = (\<lambda>b i. b ! i),
      slide = grid_slide,
      rotate_clockwise = (\<lambda>b. map ((!) b) [12, 8, 4, 0, 13, 9, 5, 1, 14, 10, 6, 2, 15, 11, 7, 3]),
      reflect_horizontal = (\<lambda>b. map ((!) b) [3, 2, 1, 0, 7, 6, 5, 4, 11, 10, 9, 8, 15, 14, 13, 12]),
      new_board = replicate 16 0\<rparr>"

definition example_board :: "32 word list" where
  "example_board = [0, 3, 3, 1, 2, 0, 6, 1, 0, 12, 3, 2, 1, 0, 0, 15]"

section \<open>Notions of the specification\<close>

text \<open>
  A direction is legal when its slide does not return the sentinel. The evaluation of a
  direction is the reward of its slide plus the value of the afterstate, a \<^verbatim>\<open>double\<close>
  sum; it is undefined where the value is.
\<close>

definition legal :: "'b board_ops \<Rightarrow> 'b \<Rightarrow> nat \<Rightarrow> bool" where
  "legal ops b op = (fst (slide ops b op) \<noteq> - 1)"

definition evaluation ::
  "('b \<Rightarrow> real option) \<Rightarrow> 'b board_ops \<Rightarrow> 'b \<Rightarrow> nat \<Rightarrow> real option" where
  "evaluation val ops b op =
     (case val (snd (slide ops b op)) of
        None \<Rightarrow> None
      | Some v \<Rightarrow> Some (double_plus v (real_of_int (fst (slide ops b op)))))"

text \<open>
  The canonical order of the eight symmetry variants of a board: the board and three
  successive clockwise rotations, then its horizontal reflection and three successive
  clockwise rotations of that.
\<close>

definition variants :: "'b board_ops \<Rightarrow> 'b \<Rightarrow> 'b list" where
  "variants ops b =
     (let r = rotate_clockwise ops; m = reflect_horizontal ops b in
      [b, r b, r (r b), r (r (r b)), m, r m, r (r m), r (r (r m))])"

text \<open>
  The table entries active for a board, as (shard, index) pairs in order: for the
  six_tuple_agent variant \<open>k\<close> and tuple \<open>i\<close> address shard \<open>4*k + i\<close>; for the
  four_tuple_agent row \<open>i\<close> addresses shard \<open>i\<close> and column \<open>i\<close> shard \<open>4 + i\<close>.
\<close>

definition six_entries :: "'b board_ops \<Rightarrow> 'b \<Rightarrow> (nat \<times> 32 word) list" where
  "six_entries ops b =
     concat (map (\<lambda>k. map (\<lambda>i. (4 * k + i, six_index ops (variants ops b ! k) i)) [0, 1, 2, 3])
                 [0, 1, 2, 3, 4, 5, 6, 7])"

definition four_entries :: "'b board_ops \<Rightarrow> 'b \<Rightarrow> (nat \<times> 32 word) list" where
  "four_entries ops b =
     concat (map (\<lambda>i. [(i, four_row_index ops b i), (4 + i, four_col_index ops b i)])
                 [0, 1, 2, 3])"

text \<open>
  Summing the entries of a list into a \<^verbatim>\<open>double\<close>, and adding an amount to each of them
  with \<^verbatim>\<open>+=\<close>, in order.
\<close>

definition sum_entries :: "network \<Rightarrow> (nat \<times> 32 word) list \<Rightarrow> real \<Rightarrow> real option" where
  "sum_entries nt es acc =
     for_loop (\<lambda>(s, index) acc.
        case net_at nt s index of None \<Rightarrow> None | Some w \<Rightarrow> Some (double_plus acc w)) es acc"

definition add_entries :: "network \<Rightarrow> (nat \<times> 32 word) list \<Rightarrow> real \<Rightarrow> network option" where
  "add_entries nt es d = for_loop (\<lambda>(s, index) nt. net_add nt s index d) es nt"

text \<open>
  Weight tables for the examples: shard 0 holds \<open>c\<close> at every address and the other
  shards hold 0, so every board has value \<open>c\<close>. In \<open>example_net\<close> it is \<open>1/2\<close>, in
  \<open>heavy_net\<close> it is \<open>2^24\<close>, the least \<^verbatim>\<open>float\<close> whose successor is 2 away.
\<close>

definition constant_net :: "real \<Rightarrow> nat \<Rightarrow> nat \<Rightarrow> network" where
  "constant_net c shards len =
     \<lparr>wsize = len, wvalue = (\<lambda>_. c)\<rparr> # replicate (shards - 1) (new_weight len)"

definition example_net :: "nat \<Rightarrow> nat \<Rightarrow> network" where
  "example_net shards len = constant_net (1 / 2) shards len"

definition heavy_net :: "nat \<Rightarrow> nat \<Rightarrow> network" where
  "heavy_net shards len = constant_net 16777216 shards len"

definition example_agent :: "network \<Rightarrow> 32 word list agent" where
  "example_agent nt =
     \<lparr>meta = Map.empty, net = nt, alpha = 1 / 2,
      episode_boards = [], episode_values = [], episode_rewards = []\<rparr>"

definition nibble_grid :: "32 word list \<Rightarrow> bool" where
  "nibble_grid b = (length b = 16 \<and> list_all (\<lambda>c. unat c < 16) b)"

text \<open>
  The sentence of the specification on what \<open>take_action\<close> stores, as it is written: the
  value appended to the episode values on an accepted move is the value of the afterstate
  of the chosen direction. \<open>select\<close> is the agent's \<open>take_action\<close> and \<open>val\<close> its
  \<open>calculate_state_value\<close>.
\<close>

definition stores_raw_value ::
  "('b board_ops \<Rightarrow> 'b agent \<Rightarrow> 'b \<Rightarrow> (action \<times> 'b agent) option) \<Rightarrow>
   ('b board_ops \<Rightarrow> network \<Rightarrow> 'b \<Rightarrow> real option) \<Rightarrow>
   'b board_ops \<Rightarrow> 'b agent \<Rightarrow> 'b \<Rightarrow> bool" where
  "stores_raw_value select val ops st b =
     (case select ops st b of
        Some (Slide a, st') \<Rightarrow>
          Some (real_of_int (last (episode_values st')))
            = val ops (net st) (snd (slide ops b (nat a)))
      | _ \<Rightarrow> True)"

text \<open>
  The sentence of the specification on the effect of an update, as it is written: where
  \<open>update_net(b, d)\<close> is defined it raises \<open>calculate_state_value(b)\<close> by exactly \<open>n * d\<close>,
  with \<open>n\<close> the number of active entries. \<open>val\<close> and \<open>update\<close> are those of one agent.
\<close>

definition raises_value_by ::
  "(network \<Rightarrow> 'b \<Rightarrow> real option) \<Rightarrow> (network \<Rightarrow> 'b \<Rightarrow> real \<Rightarrow> network option) \<Rightarrow>
   network \<Rightarrow> 'b \<Rightarrow> real \<Rightarrow> real \<Rightarrow> bool" where
  "raises_value_by val update nt b d n =
     (case update nt b d of
        None \<Rightarrow> True
      | Some nt' \<Rightarrow>
          (case (val nt b, val nt' b) of
             (Some v, Some v') \<Rightarrow> v' = v + n * d
           | _ \<Rightarrow> False))"

text \<open>
  Modelled from the spec: the caller of the agent is not among the sources. It calls
  \<open>open_episode\<close>, then \<open>take_action\<close> on one board after another, then
  \<open>close_episode\<close>. \<open>play\<close> runs \<open>take_action\<close> (\<open>select\<close>) on the boards in turn and
  counts the accepted moves.
\<close>

fun play ::
  "('b agent \<Rightarrow> 'b \<Rightarrow> (action \<times> 'b agent) option) \<Rightarrow> 'b list \<Rightarrow> 'b agent
     \<Rightarrow> (nat \<times> 'b agent) option" where
  "play select [] st = Some (0, st)"
| "play select (b # bs) st =
     (case select st b of
        None \<Rightarrow> None
      | Some (act, st') \<Rightarrow>
          (case play select bs st' of
             None \<Rightarrow> None
           | Some (k, st'') \<Rightarrow> Some ((if act = Reject then k else Suc k), st'')))"

text \<open>
  The backward pass in the words of the specification: for each recorded position \<open>i\<close>
  from the last down to the first, the amount
  \<open>learning_rate * (value_seq[i+1] + reward_seq[i+1] - value_seq[i])\<close> is added to every
  table entry active for \<open>board_seq[i]\<close>. The value and reward sequences are the recorded
  ones with the terminal 0 appended; they are arguments, so every step reads the entries
  as they were before the pass. The sum and the difference are those of \<^verbatim>\<open>int\<close>, the
  product that of a \<^verbatim>\<open>float\<close> with an \<^verbatim>\<open>int\<close>, and the addition to an entry is \<^verbatim>\<open>+=\<close>.
\<close>

definition td_backward ::
  "('b \<Rightarrow> (nat \<times> 32 word) list) \<Rightarrow> real \<Rightarrow> 'b list \<Rightarrow> int list \<Rightarrow> int list
     \<Rightarrow> network \<Rightarrow> network option" where
  "td_backward active learning_rate board_seq value_seq reward_seq nt =
     for_loop (\<lambda>i nt.
        add_entries nt (active (board_seq ! i))
          (float_times_int learning_rate
             (int_sub (int_add (value_seq ! (i + 1)) (reward_seq ! (i + 1))) (value_seq ! i))))
       (rev [0..<length board_seq]) nt"

section \<open>Construction and persistence\<close>

text \<open>
  How a constructor or a file operation can end without a result: the process exits
  with a status, \<^verbatim>\<open>std::stod\<close> throws, or an uninitialised variable is read.
\<close>

datatype failure = Exit int | Invalid_argument | Uninitialised_read

text \<open>
  Modelled from the spec: the C++ standard library and the stream operators of
  \<^verbatim>\<open>weight.h\<close> are not among the sources. \<open>stod\<close> is \<^verbatim>\<open>std::stod\<close> (\<open>None\<close> where it
  throws), \<open>u32_decode\<close> and \<open>u32_encode\<close> are the native byte order of a 32-bit
  unsigned integer, \<open>read_weight\<close> is \<^verbatim>\<open>in >> w\<close> (the shard read and the rest of the
  stream) and \<open>write_weight\<close> is \<^verbatim>\<open>out << w\<close>. A file system gives the bytes of the files
  that can be opened for reading and tells which paths can be opened for writing.
\<close>

record io_env =
  stod :: "string \<Rightarrow> real option"
  u32_decode :: "8 word list \<Rightarrow> 32 word"
  u32_encode :: "32 word \<Rightarrow> 8 word list"
  read_weight :: "8 word list \<Rightarrow> weight \<Rightarrow> weight \<times> 8 word list"
  write_weight :: "weight \<Rightarrow> 8 word list"

record filesystem =
  contents :: "string \<rightharpoonup> 8 word list"
  writable :: "string \<Rightarrow> bool"

text \<open>The constructor of \<^verbatim>\<open>agent\<close>: whitespace-separated \<^verbatim>\<open>key=value\<close> pairs, later ones winning.\<close>

definition is_space :: "char \<Rightarrow> bool" where
  "is_space c = (c \<in> set [CHR '' '', CHR 0x09, CHR 0x0A, CHR 0x0B, CHR 0x0C, CHR 0x0D])"

fun split_words :: "string \<Rightarrow> string \<Rightarrow> string list" where
  "split_words cur [] = (if cur = [] then [] else [cur])"
| "split_words cur (c # cs) =
     (if is_space c then (if cur = [] then split_words [] cs else cur # split_words [] cs)
      else split_words (cur @ [c]) cs)"

definition pair_key :: "string \<Rightarrow> string" where
  "pair_key pair = takeWhile (\<lambda>c. c \<noteq> CHR ''='') pair"

definition pair_value :: "string \<Rightarrow> string" where
  "pair_value pair =
     (if CHR ''='' \<in> set pair then tl (dropWhile (\<lambda>c. c \<noteq> CHR ''='') pair) else pair)"

definition agent_meta :: "string \<Rightarrow> (string \<rightharpoonup> string)" where
  "agent_meta args =
     fold (\<lambda>pair m. m(pair_key pair \<mapsto> pair_value pair))
       (split_words [] (''name=unknown role=unknown '' @ args)) Map.empty"

text \<open>\<^verbatim>\<open>init_weights\<close>: every maximal run of digits is a shard size.\<close>

definition is_digit :: "char \<Rightarrow> bool" where
  "is_digit c = (c \<in> set ''0123456789'')"

definition read_size :: "string \<Rightarrow> nat" where
  "read_size ds = fold (\<lambda>c n. 10 * n + (of_char c - 48)) ds 0"

definition init_weights :: "string \<Rightarrow> network \<Rightarrow> network" where
  "init_weights info nt =
     (let res = map (\<lambda>ch. if is_digit ch then ch else CHR '' '') info;
          sizes = takeWhile (\<lambda>n. n < 2 ^ 64) (map read_size (split_words [] res))
      in nt @ map new_weight sizes)"

text \<open>\<^verbatim>\<open>net.resize(size)\<close>, and the loop \<^verbatim>\<open>for (weight& w : net) in >> w\<close>.\<close>

definition resize_net :: "network \<Rightarrow> nat \<Rightarrow> network" where
  "resize_net nt n = take n nt @ replicate (n - length nt) (new_weight 0)"

fun read_shards :: "io_env \<Rightarrow> network \<Rightarrow> 8 word list \<Rightarrow> network \<times> 8 word list" where
  "read_shards env [] s = ([], s)"
| "read_shards env (w # ws) s =
     (let (w', s') = read_weight env s w;
          (ws', s'') = read_shards env ws s'
      in (w' # ws', s''))"

definition load_weights ::
  "io_env \<Rightarrow> filesystem \<Rightarrow> string \<Rightarrow> network \<Rightarrow> failure + network" where
  "load_weights env fs path nt =
     (case contents fs path of
        None \<Rightarrow> Inl (Exit (- 1))
      | Some bytes \<Rightarrow>
          if length bytes < 4 then Inl Uninitialised_read
          else
            (let size = u32_decode env (take 4 bytes);
                 nt = resize_net nt (unat size)
             in Inr (fst (read_shards env nt (drop 4 bytes)))))"

definition save_weights ::
  "io_env \<Rightarrow> filesystem \<Rightarrow> string \<Rightarrow> network \<Rightarrow> failure + filesystem" where
  "save_weights env fs path nt =
     (if \<not> writable fs path then Inl (Exit (- 1))
      else
        (let size = (of_nat (length nt) :: 32 word)
         in Inr (fs\<lparr>contents := (contents fs)
                      (path \<mapsto> u32_encode env size @ concat (map (write_weight env) nt))\<rparr>)))"

text \<open>
  The constructors of \<^verbatim>\<open>weight_agent\<close> and of the two tuple agents. The learning rate is
  a \<^verbatim>\<open>float\<close>: the literal \<^verbatim>\<open>0.0125\<close>, the \<^verbatim>\<open>double\<close> that \<^verbatim>\<open>std::stod\<close> returns and the
  \<^verbatim>\<open>double\<close> quotient \<^verbatim>\<open>0.1/32\<close> are converted when they are stored.
\<close>

definition weight_agent :: "io_env \<Rightarrow> filesystem \<Rightarrow> string \<Rightarrow> failure + 'b agent" where
  "weight_agent env fs args =
     (let m = agent_meta args;
          nt = (case m ''init'' of None \<Rightarrow> [] | Some info \<Rightarrow> init_weights info [])
      in case (case m ''load'' of None \<Rightarrow> Inr nt | Some path \<Rightarrow> load_weights env fs path nt) of
           Inl f \<Rightarrow> Inl f
         | Inr nt \<Rightarrow>
             (case m ''alpha'' of
                None \<Rightarrow>
                  Inr \<lparr>meta = m, net = nt, alpha = to_float (to_double 0.0125),
                       episode_boards = [], episode_values = [], episode_rewards = []\<rparr>
              | Some v \<Rightarrow>
                  (case stod env v of
                     None \<Rightarrow> Inl Invalid_argument
                   | Some a \<Rightarrow>
                       Inr \<lparr>meta = m, net = nt, alpha = to_float a,
                            episode_boards = [], episode_values = [], episode_rewards = []\<rparr>)))"

definition four_tuple_agent :: "io_env \<Rightarrow> filesystem \<Rightarrow> string \<Rightarrow> failure + 'b agent" where
  "four_tuple_agent env fs args = weight_agent env fs args"

definition six_tuple_agent :: "io_env \<Rightarrow> filesystem \<Rightarrow> string \<Rightarrow> failure + 'b agent" where
  "six_tuple_agent env fs args =
     (case weight_agent env fs args of
        Inl f \<Rightarrow> Inl f
      | Inr st \<Rightarrow> Inr (st\<lparr>alpha := to_float (to_double (to_double 0.1 / 32))\<rparr>))"

text \<open>
  An environment for the examples: \<open>stod\<close> knows one literal, integers are little-endian,
  and a shard is written as one byte for its length followed by a zero byte for each
  entry (a stand-in for the encoding of \<^verbatim>\<open>weight.h\<close>).
\<close>

definition example_env :: io_env where
  "example_env =
     \<lparr>stod = (\<lambda>s. if s = ''0.5'' then Some (1 / 2) else None),
      u32_decode = (\<lambda>bs. of_nat (foldr (\<lambda>b n. unat b + 256 * n) bs 0)),
      u32_encode = (\<lambda>w. map (\<lambda>k. ucast (drop_bit (8 * k) w)) [0, 1, 2, 3]),
      read_weight =
        (\<lambda>s w. case s of [] \<Rightarrow> (w, []) | n # rest \<Rightarrow> (new_weight (unat n), drop (unat n) rest)),
      write_weight = (\<lambda>w. of_nat (wsize w) # replicate (wsize w) 0)\<rparr>"

definition example_fs :: filesystem where
  "example_fs =
     \<lparr>contents = [''weights.bin'' \<mapsto> [2, 0, 0, 0, 1, 0, 2, 0, 0]],
      writable = (\<lambda>path. path = ''out.bin'')\<rparr>"

section \<open>Rounding\<close>

lemma round_even_of_int: "round_even (of_int z) = z"
  by (simp add: round_even_def)

lemma binade_bounds: "e \<le> binade n e y \<and> binade n e y \<le> e + int n"
proof (induction n arbitrary: e)
  case 0
  then show ?case by simp
next
  case (Suc n)
  from Suc [of "e + 1"] show ?case
    by simp
qed

lemma binade_lower: "e < binade n e y \<Longrightarrow> 2 powi binade n e y \<le> y"
proof (induction n arbitrary: e)
  case 0
  then show ?case by simp
next
  case (Suc n)
  show ?case
  proof (cases "2 powi (e + 1) \<le> y")
    case True
    show ?thesis
    proof (cases "e + 1 < binade n (e + 1) y")
      case True
      from Suc.IH [OF this] \<open>2 powi (e + 1) \<le> y\<close> show ?thesis
        by simp
    next
      case False
      with binade_bounds [of "e + 1" n y] have "binade n (e + 1) y = e + 1"
        by simp
      with True show ?thesis
        by simp
    qed
  next
    case False
    with Suc.prems show ?thesis
      by simp
  qed
qed

lemma binade_upper: "binade n e y < e + int n \<Longrightarrow> y < 2 powi (binade n e y + 1)"
proof (induction n arbitrary: e)
  case 0
  then show ?case by simp
next
  case (Suc n)
  show ?case
  proof (cases "2 powi (e + 1) \<le> y")
    case True
    with Suc.prems have "binade n (e + 1) y < e + 1 + int n"
      by simp
    from Suc.IH [OF this] True show ?thesis
      by simp
  next
    case False
    then show ?thesis
      by simp
  qed
qed

lemma power_int_less_exponent:
  fixes a b :: int
  assumes "(2::real) powi a < 2 powi b"
  shows "a < b"
proof (rule ccontr)
  assume "\<not> a < b"
  then have "b \<le> a"
    by simp
  then have "(2::real) powi b \<le> 2 powi a"
    by (intro power_int_increasing) simp_all
  with assms show False
    by simp
qed

text \<open>A number with a significand of fewer than \<open>p\<close> bits and an exponent in range is kept.\<close>

lemma ieee_round_exact:
  assumes x: "x = of_int m * 2 powi j" and m: "\<bar>m\<bar> < 2 ^ p" and j: "emin - (int p - 1) \<le> j"
  shows "ieee_round p emin emax x = x"
proof -
  define b where "b = binade (nat (emax - emin)) emin \<bar>x\<bar>"
  define q where "q = b - (int p - 1)"
  have q: "q \<le> j"
  proof (cases "emin < b")
    case True
    then have "2 powi b \<le> \<bar>x\<bar>"
      unfolding b_def by (rule binade_lower)
    also have "\<bar>x\<bar> = of_int \<bar>m\<bar> * 2 powi j"
      by (simp add: x abs_mult)
    also have "\<dots> < 2 ^ p * 2 powi j"
    proof (intro mult_strict_right_mono)
      have "real_of_int \<bar>m\<bar> < real_of_int (2 ^ p)"
        using m by (simp only: of_int_less_iff)
      then show "real_of_int \<bar>m\<bar> < 2 ^ p"
        by simp
    qed simp
    also have "\<dots> = 2 powi (int p + j)"
      by (simp add: power_int_add)
    finally have "b < int p + j"
      by (rule power_int_less_exponent)
    then show ?thesis
      by (simp add: q_def)
  next
    case False
    with binade_bounds [of emin "nat (emax - emin)" "\<bar>x\<bar>"] have "b = emin"
      by (simp add: b_def)
    with j show ?thesis
      by (simp add: q_def)
  qed
  have "x / 2 powi q = of_int m * 2 powi (j - q)"
    by (simp add: x power_int_diff)
  also have "\<dots> = of_int (m * 2 ^ nat (j - q))"
    using q by (simp add: power_int_def)
  finally have "round_even (x / 2 powi q) = m * 2 ^ nat (j - q)"
    by (simp only: round_even_of_int)
  then have "ieee_round p emin emax x = of_int (m * 2 ^ nat (j - q)) * 2 powi q"
    by (simp add: ieee_round_def Let_def q_def b_def)
  also have "\<dots> = of_int m * (2 powi (j - q) * 2 powi q)"
    using q by (simp add: power_int_def)
  also have "2 powi (j - q) * 2 powi q = (2::real) powi j"
    by (simp add: power_int_diff)
  finally show ?thesis
    by (simp add: x)
qed

text \<open>Rounding within a binade, for the evaluation of examples.\<close>

lemma ieee_round_in_binade:
  assumes lo: "2 powi e \<le> \<bar>x\<bar>" and hi: "\<bar>x\<bar> < 2 powi (e + 1)"
    and e: "emin \<le> e" "e \<le> emax"
  shows "ieee_round p emin emax x
           = of_int (round_even (x / 2 powi (e - (int p - 1)))) * 2 powi (e - (int p - 1))"
proof -
  define b where "b = binade (nat (emax - emin)) emin \<bar>x\<bar>"
  have "\<not> b < e"
  proof
    assume l: "b < e"
    with e have "b < emin + int (nat (emax - emin))"
      by simp
    then have "\<bar>x\<bar> < 2 powi (b + 1)"
      unfolding b_def by (rule binade_upper)
    also from l have "(2::real) powi (b + 1) \<le> 2 powi e"
      by (intro power_int_increasing) simp_all
    finally show False
      using lo by simp
  qed
  moreover have "\<not> e < b"
  proof
    assume g: "e < b"
    with e have "emin < b"
      by simp
    then have "2 powi b \<le> \<bar>x\<bar>"
      unfolding b_def by (rule binade_lower)
    with hi have "(2::real) powi b < 2 powi (e + 1)"
      by simp
    then have "b < e + 1"
      by (rule power_int_less_exponent)
    with g show False
      by simp
  qed
  ultimately have "b = e"
    by simp
  then show ?thesis
    by (simp add: ieee_round_def Let_def b_def)
qed

text \<open>Quarters of integers below \<open>2^53\<close> are doubles, those below \<open>2^24\<close> are floats.\<close>

lemma to_double_quarters:
  assumes "\<bar>m\<bar> < 2 ^ 53"
  shows "to_double (of_int m / 4) = of_int m / 4"
  unfolding to_double_def
  by (rule ieee_round_exact [where m = m and j = "- 2"]) (use assms in simp_all)

lemma to_float_quarters:
  assumes "\<bar>m\<bar> < 2 ^ 24"
  shows "to_float (of_int m / 4) = of_int m / 4"
  unfolding to_float_def
  by (rule ieee_round_exact [where m = m and j = "- 2"]) (use assms in simp_all)

lemma to_double_of_int:
  assumes "\<bar>m\<bar> < 2 ^ 53"
  shows "to_double (of_int m) = of_int m"
  unfolding to_double_def
  by (rule ieee_round_exact [where m = m and j = 0]) (use assms in simp_all)

lemma to_float_of_int:
  assumes "\<bar>m\<bar> < 2 ^ 24"
  shows "to_float (of_int m) = of_int m"
  unfolding to_float_def
  by (rule ieee_round_exact [where m = m and j = 0]) (use assms in simp_all)

lemma to_float_tie: "to_float 16777217 = 16777216"
proof -
  have "to_float 16777217
      = of_int (round_even (16777217 / 2 powi (24 - (int 24 - 1)))) * 2 powi (24 - (int 24 - 1))"
    unfolding to_float_def by (rule ieee_round_in_binade) simp_all
  also have "round_even (16777217 / 2 powi (24 - (int 24 - 1))) = 8388608"
    by (simp add: round_even_def)
  finally show ?thesis
    by simp
qed

lemma int32_small: "- (2 ^ 31) \<le> x \<Longrightarrow> x < 2 ^ 31 \<Longrightarrow> int32 x = x"
proof -
  assume "- (2 ^ 31) \<le> x" "x < 2 ^ 31"
  then have "signed_take_bit 31 x = x"
    by (rule signed_take_bit_int_eq_self)
  then show ?thesis
    by (simp add: int32_def sint_sbintrunc')
qed

section \<open>Address packing\<close>

lemma or_push_bit_nat:
  fixes x :: nat
  assumes "x < 2 ^ n"
  shows "x OR push_bit n y = x + y * 2 ^ n"
proof -
  have x: "take_bit n x = x"
    using assms by (rule take_bit_nat_eq_self)
  have "x + push_bit n y = x OR push_bit n y"
  proof (rule disjunctive_add_eq_or, rule bit_eqI)
    fix m
    have "bit (take_bit n x AND push_bit n y) m = bit (0::nat) m"
      by (auto simp: bit_and_iff bit_push_bit_iff bit_take_bit_iff)
    then show "bit (x AND push_bit n y) m = bit (0::nat) m"
      by (simp only: x)
  qed
  then show ?thesis
    by (simp add: push_bit_eq_mult)
qed

lemma unat_or_push_bit:
  fixes x c :: "32 word"
  assumes "unat x < 2 ^ n" "unat c < 16" "n + 4 \<le> 32"
  shows "unat (x OR push_bit n c) = unat x + unat c * 2 ^ n"
    and "unat (x OR push_bit n c) < 2 ^ (n + 4)"
proof -
  have b: "unat c * 2 ^ n < 2 ^ (n + 4)"
    using assms(2) by (simp add: power_add mult.commute)
  have "(2::nat) ^ (n + 4) \<le> 2 ^ 32"
    using assms(3) by (intro power_increasing) simp_all
  with b have "push_bit n (unat c) < 2 ^ 32"
    by (simp add: push_bit_eq_mult)
  then have p: "unat (push_bit n c) = push_bit n (unat c)"
    by (simp add: unsigned_push_bit_eq take_bit_nat_eq_self)
  show e: "unat (x OR push_bit n c) = unat x + unat c * 2 ^ n"
    by (simp add: unsigned_or_eq p or_push_bit_nat [OF assms(1)])
  have "unat x + unat c * 2 ^ n < 2 ^ n + 15 * 2 ^ n"
    using assms(1,2) by (intro add_less_le_mono mult_right_mono) simp_all
  then have "unat x + unat c * 2 ^ n < 2 ^ (n + 4)"
    by (simp add: power_add)
  with e show "unat (x OR push_bit n c) < 2 ^ (n + 4)"
    by simp
qed

text \<open>The packing loop over any \<open>k \<le> 8\<close> cells of four bits each.\<close>

lemma pack_fold:
  fixes c :: "nat \<Rightarrow> 32 word"
  assumes "\<forall>j<k. unat (c j) < 16" "k \<le> 8"
  shows "unat (fold (\<lambda>j index. index OR push_bit (4 * j) (c j)) [0..<k] 0)
           = (\<Sum>j<k. unat (c j) * 2 ^ (4 * j))
       \<and> unat (fold (\<lambda>j index. index OR push_bit (4 * j) (c j)) [0..<k] 0) < 2 ^ (4 * k)"
  using assms
proof (induction k)
  case 0
  then show ?case by simp
next
  case (Suc k)
  let ?x = "fold (\<lambda>j index. index OR push_bit (4 * j) (c j)) [0..<k] 0"
  from Suc have ih: "unat ?x = (\<Sum>j<k. unat (c j) * 2 ^ (4 * j))" "unat ?x < 2 ^ (4 * k)"
    by simp_all
  from Suc.prems have ck: "unat (c k) < 16" and k: "4 * k + 4 \<le> 32"
    by simp_all
  have "unat (?x OR push_bit (4 * k) (c k)) = unat ?x + unat (c k) * 2 ^ (4 * k)"
    and "unat (?x OR push_bit (4 * k) (c k)) < 2 ^ (4 * Suc k)"
    using unat_or_push_bit [OF ih(2) ck k] by (simp_all add: add.commute)
  then show ?case
    by (simp add: ih(1))
qed

lemma upt_4: "[0..<4] = [0, 1, 2, 3]"
  by (simp add: upt_rec)

lemma net_index_fold:
  "net_index c0 c1 c2 c3 =
     fold (\<lambda>j index. index OR push_bit (4 * j) ([c0, c1, c2, c3] ! j)) [0..<4] 0"
  by (simp add: net_index_def upt_4)

lemma address_small:
  assumes "unat index < 2 ^ 31"
  shows "address index = unat index"
proof -
  have u: "uint index < 2 ^ 31"
    using assms by (simp add: unat_eq_nat_uint del: nat_uint_eq)
  have "- (2 ^ 31) \<le> uint index"
    by (rule order_trans [of _ 0]) simp_all
  then have "signed_take_bit 31 (uint index) = uint index"
    using u by (rule signed_take_bit_int_eq_self)
  then have "sint index = uint index"
    by (simp add: sint_uint)
  then have "(scast index :: 64 word) = word_of_int (uint index)"
    by (simp add: scast_eq)
  moreover have "uint index mod 2 ^ 64 = uint index"
    using u by (intro mod_pos_pos_trivial) simp_all
  ultimately have "uint (scast index :: 64 word) = uint index"
    by (simp add: uint_word_of_int del: of_int_uint)
  then show ?thesis
    by (simp add: address_def unat_eq_nat_uint del: nat_uint_eq)
qed

lemma sum_lessThan_4:
  fixes f :: "nat \<Rightarrow> nat"
  shows "(\<Sum>j<4. f j) = f 0 + f 1 + f 2 + f 3"
  by (simp add: numeral_eq_Suc)

lemma sum_lessThan_6:
  fixes f :: "nat \<Rightarrow> nat"
  shows "(\<Sum>j<6. f j) = f 0 + f 1 + f 2 + f 3 + f 4 + f 5"
  by (simp add: numeral_eq_Suc)

lemma all_less_4:
  "(\<forall>j<4. P j) \<longleftrightarrow> P 0 \<and> P 1 \<and> P 2 \<and> P (3::nat)"
proof
  assume "\<forall>j<4. P j"
  then show "P 0 \<and> P 1 \<and> P 2 \<and> P 3"
    by simp
next
  assume a: "P 0 \<and> P 1 \<and> P 2 \<and> P 3"
  show "\<forall>j<4. P j"
  proof (intro allI impI)
    fix j :: nat
    assume "j < 4"
    then have "j = 0 \<or> j = 1 \<or> j = 2 \<or> j = 3"
      by arith
    with a show "P j"
      by auto
  qed
qed

lemma net_index_sum:
  assumes "unat c0 < 16" "unat c1 < 16" "unat c2 < 16" "unat c3 < 16"
  shows "address (net_index c0 c1 c2 c3)
           = unat c0 * 2 ^ (4 * 0) + unat c1 * 2 ^ (4 * 1) + unat c2 * 2 ^ (4 * 2)
             + unat c3 * 2 ^ (4 * 3)"
    and "address (net_index c0 c1 c2 c3) < 2 ^ (4 * 4)"
proof -
  have c: "\<forall>j<4. unat ([c0, c1, c2, c3] ! j) < 16"
    using assms by (simp add: all_less_4)
  note p = pack_fold [of 4 "\<lambda>j. [c0, c1, c2, c3] ! j", OF c, folded net_index_fold]
  have e: "unat (net_index c0 c1 c2 c3)
             = unat c0 * 2 ^ (4 * 0) + unat c1 * 2 ^ (4 * 1) + unat c2 * 2 ^ (4 * 2)
               + unat c3 * 2 ^ (4 * 3)"
    using p by (simp add: sum_lessThan_4)
  have b: "unat (net_index c0 c1 c2 c3) < 2 ^ (4 * 4)"
    using p by simp
  then have "address (net_index c0 c1 c2 c3) = unat (net_index c0 c1 c2 c3)"
    by (intro address_small) simp
  with e b show "address (net_index c0 c1 c2 c3)
           = unat c0 * 2 ^ (4 * 0) + unat c1 * 2 ^ (4 * 1) + unat c2 * 2 ^ (4 * 2)
             + unat c3 * 2 ^ (4 * 3)"
    and "address (net_index c0 c1 c2 c3) < 2 ^ (4 * 4)"
    by simp_all
qed

lemma six_index_sum:
  assumes "\<forall>j<6. unat (cell_at ops b (tuple_index ! i ! j)) < 16"
  shows "address (six_index ops b i)
           = (\<Sum>j<6. unat (cell_at ops b (tuple_index ! i ! j)) * 2 ^ (4 * j))"
    and "address (six_index ops b i) < 2 ^ (4 * 6)"
proof -
  note p = pack_fold [of 6 "\<lambda>j. cell_at ops b (tuple_index ! i ! j)", OF assms,
      folded six_index_def]
  then have "unat (six_index ops b i) < 2 ^ (4 * 6)"
    by simp
  then have "address (six_index ops b i) = unat (six_index ops b i)"
    by (intro address_small) simp
  with p show "address (six_index ops b i)
           = (\<Sum>j<6. unat (cell_at ops b (tuple_index ! i ! j)) * 2 ^ (4 * j))"
    and "address (six_index ops b i) < 2 ^ (4 * 6)"
    by simp_all
qed

lemma tuple_index_positions:
  assumes "i < 4" "j < 6"
  shows "tuple_index ! i ! j < 16"
proof -
  have "i = 0 \<or> i = 1 \<or> i = 2 \<or> i = 3"
    using assms(1) by arith
  moreover have "j = 0 \<or> j = 1 \<or> j = 2 \<or> j = 3 \<or> j = 4 \<or> j = 5"
    using assms(2) by arith
  ultimately show ?thesis
    by (elim disjE; simp add: tuple_index_def)
qed

text \<open>
  C8. On a board whose 16 cells all hold values in 0..15, every table address the two
  agents compute is the sum over the tuple's positions \<open>j\<close> of the cell value shifted
  left by \<open>4*j\<close>: the rows and the columns of the four_tuple_agent (\<open>k = 4\<close>, through
  \<open>net_index\<close>) and the four tuples of the six_tuple_agent (\<open>k = 6\<close>, the loop over \<open>j\<close>).
  The address is below \<open>2^(4*k)\<close>.
\<close>

theorem tuple_address_is_nibble_sum:
  assumes "\<forall>p<16. unat (cell_at ops b p) < 16" and "i < 4"
  shows "address (four_row_index ops b i)
           = (\<Sum>j<4. unat (cell_at ops b (4 * i + j)) * 2 ^ (4 * j))
       \<and> address (four_row_index ops b i) < 2 ^ (4 * 4)
       \<and> address (four_col_index ops b i)
           = (\<Sum>j<4. unat (cell_at ops b (i + 4 * j)) * 2 ^ (4 * j))
       \<and> address (four_col_index ops b i) < 2 ^ (4 * 4)
       \<and> address (six_index ops b i)
           = (\<Sum>j<6. unat (cell_at ops b (tuple_index ! i ! j)) * 2 ^ (4 * j))
       \<and> address (six_index ops b i) < 2 ^ (4 * 6)"
proof -
  have row: "unat (cell_at ops b (4 * i + j)) < 16" if "j < 4" for j
    using assms that by simp
  have col: "unat (cell_at ops b (i + 4 * j)) < 16" if "j < 4" for j
    using assms that by simp
  have six: "\<forall>j<6. unat (cell_at ops b (tuple_index ! i ! j)) < 16"
    using assms tuple_index_positions by simp
  have "address (four_row_index ops b i)
           = (\<Sum>j<4. unat (cell_at ops b (4 * i + j)) * 2 ^ (4 * j))"
    using net_index_sum(1) [OF row [of 0] row [of 1] row [of 2] row [of 3]]
    by (simp add: four_row_index_def Let_def sum_lessThan_4)
  moreover have "address (four_row_index ops b i) < 2 ^ (4 * 4)"
    using net_index_sum(2) [OF row [of 0] row [of 1] row [of 2] row [of 3]]
    by (simp add: four_row_index_def Let_def)
  moreover have "address (four_col_index ops b i)
           = (\<Sum>j<4. unat (cell_at ops b (i + 4 * j)) * 2 ^ (4 * j))"
    using net_index_sum(1) [OF col [of 0] col [of 1] col [of 2] col [of 3]]
    by (simp add: four_col_index_def sum_lessThan_4)
  moreover have "address (four_col_index ops b i) < 2 ^ (4 * 4)"
    using net_index_sum(2) [OF col [of 0] col [of 1] col [of 2] col [of 3]]
    by (simp add: four_col_index_def)
  moreover note six_index_sum(1) [OF six] six_index_sum(2) [OF six]
  ultimately show ?thesis
    by blast
qed

lemma example_board_cells:
  "\<forall>p<16. unat (cell_at grid_ops example_board p) < 16"
proof -
  have "list_all (\<lambda>c. unat c < 16) example_board"
    by (simp add: example_board_def)
  moreover have "length example_board = 16"
    by (simp add: example_board_def)
  ultimately show ?thesis
    by (simp add: list_all_length grid_ops_def)
qed

theorem tuple_address_is_nibble_sum_witness:
  "list_all (\<lambda>c. unat c < 16) example_board \<and> (1::nat) < 4
   \<and> address (four_row_index grid_ops example_board 1) = 2 + 0 * 16 + 6 * 256 + 1 * 4096
   \<and> address (four_row_index grid_ops example_board 1) < 65536
   \<and> address (four_col_index grid_ops example_board 1) = 3 + 0 * 16 + 12 * 256 + 0 * 4096
   \<and> address (four_col_index grid_ops example_board 1) < 65536
   \<and> address (six_index grid_ops example_board 1)
        = 2 + 0 * 16 + 6 * 256 + 1 * 4096 + 0 * 65536 + 12 * 1048576
   \<and> address (six_index grid_ops example_board 1) < 16777216"
proof -
  have i: "(1::nat) < 4"
    by simp
  show ?thesis
    using tuple_address_is_nibble_sum [OF example_board_cells i]
    by (simp add: sum_lessThan_4 sum_lessThan_6 grid_ops_def example_board_def tuple_index_def)
qed

section \<open>Loops\<close>

lemma for_loop_append:
  "for_loop body (xs @ ys) s =
     (case for_loop body xs s of None \<Rightarrow> None | Some s' \<Rightarrow> for_loop body ys s')"
  by (induction xs arbitrary: s) (auto split: option.splits)

lemma for_loop_upt_Suc:
  "for_loop body [0..<Suc n] s =
     (case for_loop body [0..<n] s of None \<Rightarrow> None | Some s' \<Rightarrow> body n s')"
  by (simp add: for_loop_append split: option.splits)

lemma opcode_upt: "opcode = [0..<4]"
  by (simp add: opcode_def upt_4)

section \<open>The greedy scan of take_action\<close>

text \<open>
  The loop over the directions, for any state type: an illegal direction leaves the
  candidate, a legal one replaces it when its evaluation is strictly greater or when
  there is no candidate yet.
\<close>

lemma greedy_scan:
  fixes body :: "nat \<Rightarrow> 's \<Rightarrow> 's option" and ev :: "nat \<Rightarrow> real option"
  assumes step: "\<And>op s. body op s =
            (if \<not> lg op then Some s
             else case ev op of
                    None \<Rightarrow> None
                  | Some e \<Rightarrow> if e > val s \<or> fresh s then Some (cand op e) else Some s)"
    and cand: "\<And>op e. lg op \<Longrightarrow> ev op = Some e \<Longrightarrow> val (cand op e) = e \<and> \<not> fresh (cand op e)"
    and init: "fresh init"
    and run: "for_loop body [0..<n] init = Some s"
  shows "(fresh s \<longrightarrow> s = init \<and> (\<forall>op<n. \<not> lg op))
       \<and> (\<not> fresh s \<longrightarrow>
            (\<exists>op<n. lg op
               \<and> (\<exists>e. ev op = Some e \<and> s = cand op e
                     \<and> (\<forall>op'<n. lg op' \<longrightarrow>
                           (\<exists>e'. ev op' = Some e' \<and> e' \<le> e \<and> (op' < op \<longrightarrow> e' < e))))))"
  using run
proof (induction n arbitrary: s)
  case 0
  then show ?case using init by simp
next
  case (Suc n)
  from Suc.prems obtain s0 where s0: "for_loop body [0..<n] init = Some s0"
    and s: "body n s0 = Some s"
    unfolding for_loop_upt_Suc by (auto split: option.splits)
  note ih = Suc.IH [OF s0]
  let ?best = "\<lambda>m op e. \<forall>op'<m. lg op' \<longrightarrow>
                 (\<exists>e'. ev op' = Some e' \<and> e' \<le> e \<and> (op' < op \<longrightarrow> e' < e))"
  let ?chosen = "\<lambda>m t. \<exists>op<m. lg op \<and> (\<exists>e. ev op = Some e \<and> t = cand op e \<and> ?best m op e)"
  show ?case
  proof (cases "lg n")
    case False
    with s step have "s = s0" by simp
    with ih False show ?thesis
      by (auto simp: less_Suc_eq)
  next
    case True
    with s step obtain e where e: "ev n = Some e"
      and s': "s = (if e > val s0 \<or> fresh s0 then cand n e else s0)"
      by (auto split: option.splits if_splits)
    note c = cand [OF True e]
    have adopt: "?chosen (Suc n) s" if sn: "s = cand n e" and b: "?best (Suc n) n e"
      using sn True e b by (intro exI [of _ n] conjI exI [of _ e]) simp_all
    show ?thesis
    proof (cases "fresh s0")
      case fr: True
      with s' have sn: "s = cand n e" by simp
      from fr ih have none: "\<forall>op<n. \<not> lg op" by blast
      have "?best (Suc n) n e"
      proof (intro allI impI)
        fix op' assume a: "op' < Suc n" "lg op'"
        with none have "op' = n"
          by (cases "op' = n") simp_all
        with e show "\<exists>e'. ev op' = Some e' \<and> e' \<le> e \<and> (op' < n \<longrightarrow> e' < e)"
          by simp
      qed
      with adopt sn c show ?thesis
        by simp
    next
      case nf: False
      with ih obtain op e0 where op: "op < n" "lg op" "s0 = cand op e0" "ev op = Some e0"
        and mx: "?best n op e0"
        by blast
      from cand [OF op(2) op(4)] op(3) have v0: "val s0 = e0" by simp
      show ?thesis
      proof (cases "e > e0")
        case gt: True
        with s' v0 have sn: "s = cand n e" by simp
        have "?best (Suc n) n e"
        proof (intro allI impI)
          fix op' assume a: "op' < Suc n" "lg op'"
          show "\<exists>e'. ev op' = Some e' \<and> e' \<le> e \<and> (op' < n \<longrightarrow> e' < e)"
          proof (cases "op' = n")
            case True
            with e show ?thesis by simp
          next
            case False
            with a have "op' < n" by simp
            with mx a(2) obtain e' where "ev op' = Some e'" "e' \<le> e0" by blast
            with gt show ?thesis by auto
          qed
        qed
        with adopt sn c show ?thesis
          by simp
      next
        case le: False
        with s' v0 nf have sn: "s = s0" by simp
        have "?best (Suc n) op e0"
        proof (intro allI impI)
          fix op' assume a: "op' < Suc n" "lg op'"
          show "\<exists>e'. ev op' = Some e' \<and> e' \<le> e0 \<and> (op' < op \<longrightarrow> e' < e0)"
          proof (cases "op' = n")
            case True
            with e le op(1) show ?thesis by simp
          next
            case False
            with a have "op' < n" by simp
            with mx a(2) show ?thesis by blast
          qed
        qed
        then have "?chosen (Suc n) s"
          using sn op by (intro exI [of _ op] conjI exI [of _ e0]) simp_all
        with sn nf show ?thesis
          by simp
      qed
    qed
  qed
qed

lemma four_try_step:
  "four_try ops nt b op s =
     (if \<not> legal ops b op then Some s
      else case evaluation (four_calculate_state_value ops nt) ops b op of
             None \<Rightarrow> None
           | Some e \<Rightarrow>
               if e > best_after_state_value s \<or> best_reward s = - 1
               then Some \<lparr>best_reward = fst (slide ops b op), best_action = int op,
                          best_after_state_value = e, best_after = snd (slide ops b op)\<rparr>
               else Some s)"
  by (simp add: four_try_def legal_def evaluation_def case_prod_beta Let_def
      split: option.splits)

lemma six_try_step:
  "six_try ops nt b op s =
     (if \<not> legal ops b op then Some s
      else case evaluation (six_calculate_state_value ops nt) ops b op of
             None \<Rightarrow> None
           | Some e \<Rightarrow>
               if e > best_after_state_value s \<or> best_reward s = - 1
               then Some \<lparr>best_reward = fst (slide ops b op), best_action = int op,
                          best_after_state_value = e, best_after = snd (slide ops b op),
                          best_episode_after_state_value =
                            the (six_calculate_state_value ops nt (snd (slide ops b op)))\<rparr>
               else Some s)"
  by (simp add: six_try_def legal_def evaluation_def case_prod_beta Let_def
      split: option.splits)


lemma four_take_action_cases:
  assumes "four_take_action ops st b = Some (act, st')"
  shows "((\<forall>op<4. \<not> legal ops b op) \<and> act = Reject \<and> st' = st)
       \<or> (\<exists>op<4. legal ops b op
             \<and> (\<exists>e. evaluation (four_calculate_state_value ops (net st)) ops b op = Some e
                   \<and> act = Slide (int op)
                   \<and> st' = st\<lparr>episode_boards := episode_boards st @ [snd (slide ops b op)],
                               episode_rewards := episode_rewards st @ [fst (slide ops b op)],
                               episode_values := episode_values st @ [double_to_int e]\<rparr>
                   \<and> (\<forall>op'<4. legal ops b op' \<longrightarrow>
                         (\<exists>e'. evaluation (four_calculate_state_value ops (net st)) ops b op'
                                 = Some e'
                               \<and> e' \<le> e \<and> (op' < op \<longrightarrow> e' < e)))))"
proof -
  let ?init = "\<lparr>best_reward = - 1, best_action = - 1, best_after_state_value = - 1000,
                 best_after = new_board ops\<rparr>"
  let ?cand = "\<lambda>op e. \<lparr>best_reward = fst (slide ops b op), best_action = int op,
                 best_after_state_value = e, best_after = snd (slide ops b op)\<rparr>"
  from assms obtain best where
    run: "for_loop (four_try ops (net st) b) [0..<4] ?init = Some best"
    and res: "(act, st') =
       (if best_reward best \<noteq> - 1
        then (Slide (best_action best),
              st\<lparr>episode_boards := episode_boards st @ [best_after best],
                 episode_rewards := episode_rewards st @ [best_reward best],
                 episode_values :=
                   episode_values st @ [double_to_int (best_after_state_value best)]\<rparr>)
        else (Reject, st))"
    by (auto simp: four_take_action_def opcode_upt split: option.splits if_splits)
  have scan: "(best_reward best = - 1 \<longrightarrow> best = ?init \<and> (\<forall>op<4. \<not> legal ops b op))
       \<and> (\<not> best_reward best = - 1 \<longrightarrow>
            (\<exists>op<4. legal ops b op
               \<and> (\<exists>e. evaluation (four_calculate_state_value ops (net st)) ops b op = Some e
                     \<and> best = ?cand op e
                     \<and> (\<forall>op'<4. legal ops b op' \<longrightarrow>
                           (\<exists>e'. evaluation (four_calculate_state_value ops (net st)) ops b op'
                                   = Some e'
                                 \<and> e' \<le> e \<and> (op' < op \<longrightarrow> e' < e))))))"
  proof (rule greedy_scan [where body = "four_try ops (net st) b"
        and val = best_after_state_value and fresh = "\<lambda>s. best_reward s = - 1"
        and cand = ?cand and init = ?init, OF _ _ _ run])
    show "four_try ops (net st) b op s =
       (if \<not> legal ops b op then Some s
        else case evaluation (four_calculate_state_value ops (net st)) ops b op of
               None \<Rightarrow> None
             | Some e \<Rightarrow>
                 if e > best_after_state_value s \<or> best_reward s = - 1
                 then Some (?cand op e) else Some s)" for op s
      by (rule four_try_step)
    show "best_after_state_value (?cand op e) = e \<and> \<not> best_reward (?cand op e) = - 1"
      if "legal ops b op" for op e
      using that by (simp add: legal_def)
    show "best_reward ?init = - 1"
      by simp
  qed
  show ?thesis
  proof (cases "best_reward best = - 1")
    case True
    with scan res show ?thesis by simp
  next
    case False
    with scan obtain op e where op: "op < 4" "legal ops b op"
      "evaluation (four_calculate_state_value ops (net st)) ops b op = Some e"
      "best = ?cand op e"
      and mx: "\<forall>op'<4. legal ops b op' \<longrightarrow>
                 (\<exists>e'. evaluation (four_calculate_state_value ops (net st)) ops b op' = Some e'
                       \<and> e' \<le> e \<and> (op' < op \<longrightarrow> e' < e))"
      by blast
    from False res op(4) have "act = Slide (int op)"
      and "st' = st\<lparr>episode_boards := episode_boards st @ [snd (slide ops b op)],
                     episode_rewards := episode_rewards st @ [fst (slide ops b op)],
                     episode_values := episode_values st @ [double_to_int e]\<rparr>"
      by simp_all
    with op mx show ?thesis
      by blast
  qed
qed

lemma six_take_action_cases:
  assumes "six_take_action ops st b = Some (act, st')"
  shows "((\<forall>op<4. \<not> legal ops b op) \<and> act = Reject \<and> st' = st)
       \<or> (\<exists>op<4. legal ops b op
             \<and> (\<exists>e. evaluation (six_calculate_state_value ops (net st)) ops b op = Some e
                   \<and> act = Slide (int op)
                   \<and> st' = st\<lparr>episode_boards := episode_boards st @ [snd (slide ops b op)],
                               episode_rewards := episode_rewards st @ [fst (slide ops b op)],
                               episode_values := episode_values st
                                 @ [double_to_int (the (six_calculate_state_value ops (net st)
                                      (snd (slide ops b op))))]\<rparr>
                   \<and> (\<forall>op'<4. legal ops b op' \<longrightarrow>
                         (\<exists>e'. evaluation (six_calculate_state_value ops (net st)) ops b op'
                                 = Some e'
                               \<and> e' \<le> e \<and> (op' < op \<longrightarrow> e' < e)))))"
proof -
  let ?init = "\<lparr>best_reward = - 1, best_action = - 1, best_after_state_value = - 1000,
                 best_after = new_board ops, best_episode_after_state_value = - 1000\<rparr>"
  let ?cand = "\<lambda>op e. \<lparr>best_reward = fst (slide ops b op), best_action = int op,
                 best_after_state_value = e, best_after = snd (slide ops b op),
                 best_episode_after_state_value =
                   the (six_calculate_state_value ops (net st) (snd (slide ops b op)))\<rparr>"
  from assms obtain best where
    run: "for_loop (six_try ops (net st) b) [0..<4] ?init = Some best"
    and res: "(act, st') =
       (if best_reward best \<noteq> - 1
        then (Slide (best_action best),
              st\<lparr>episode_boards := episode_boards st @ [best_after best],
                 episode_rewards := episode_rewards st @ [best_reward best],
                 episode_values :=
                   episode_values st @ [double_to_int (best_episode_after_state_value best)]\<rparr>)
        else (Reject, st))"
    by (auto simp: six_take_action_def opcode_upt split: option.splits if_splits)
  have scan: "(best_reward best = - 1 \<longrightarrow> best = ?init \<and> (\<forall>op<4. \<not> legal ops b op))
       \<and> (\<not> best_reward best = - 1 \<longrightarrow>
            (\<exists>op<4. legal ops b op
               \<and> (\<exists>e. evaluation (six_calculate_state_value ops (net st)) ops b op = Some e
                     \<and> best = ?cand op e
                     \<and> (\<forall>op'<4. legal ops b op' \<longrightarrow>
                           (\<exists>e'. evaluation (six_calculate_state_value ops (net st)) ops b op'
                                   = Some e'
                                 \<and> e' \<le> e \<and> (op' < op \<longrightarrow> e' < e))))))"
  proof (rule greedy_scan [where body = "six_try ops (net st) b"
        and val = best_after_state_value and fresh = "\<lambda>s. best_reward s = - 1"
        and cand = ?cand and init = ?init, OF _ _ _ run])
    show "six_try ops (net st) b op s =
       (if \<not> legal ops b op then Some s
        else case evaluation (six_calculate_state_value ops (net st)) ops b op of
               None \<Rightarrow> None
             | Some e \<Rightarrow>
                 if e > best_after_state_value s \<or> best_reward s = - 1
                 then Some (?cand op e) else Some s)" for op s
      by (rule six_try_step)
    show "best_after_state_value (?cand op e) = e \<and> \<not> best_reward (?cand op e) = - 1"
      if "legal ops b op" for op e
      using that by (simp add: legal_def)
    show "best_reward ?init = - 1"
      by simp
  qed
  show ?thesis
  proof (cases "best_reward best = - 1")
    case True
    with scan res show ?thesis by simp
  next
    case False
    with scan obtain op e where op: "op < 4" "legal ops b op"
      "evaluation (six_calculate_state_value ops (net st)) ops b op = Some e"
      "best = ?cand op e"
      and mx: "\<forall>op'<4. legal ops b op' \<longrightarrow>
                 (\<exists>e'. evaluation (six_calculate_state_value ops (net st)) ops b op' = Some e'
                       \<and> e' \<le> e \<and> (op' < op \<longrightarrow> e' < e))"
      by blast
    from False res op(4) have "act = Slide (int op)"
      and "st' = st\<lparr>episode_boards := episode_boards st @ [snd (slide ops b op)],
                     episode_rewards := episode_rewards st @ [fst (slide ops b op)],
                     episode_values := episode_values st
                                 @ [double_to_int (the (six_calculate_state_value ops (net st)
                                      (snd (slide ops b op))))]\<rparr>"
      by simp_all
    with op mx show ?thesis
      by blast
  qed
qed


lemma evaluation_Some:
  "evaluation val ops b op = Some e \<longleftrightarrow>
     (\<exists>v. val (snd (slide ops b op)) = Some v
          \<and> e = double_plus v (real_of_int (fst (slide ops b op))))"
  by (auto simp: evaluation_def split: option.splits)

section \<open>Reading and updating table entries\<close>

lemma upt_1_4: "[1..<4] = [1, 2, 3]"
  by (simp add: upt_rec)

lemma sum_entries_simps:
  "sum_entries nt [] acc = Some acc"
  "sum_entries nt ((s, index) # es) acc =
     (case net_at nt s index of
        None \<Rightarrow> None
      | Some w \<Rightarrow> sum_entries nt es (double_plus acc w))"
  by (simp_all add: sum_entries_def split: option.splits)

lemma add_entries_simps:
  "add_entries nt [] d = Some nt"
  "add_entries nt ((s, index) # es) d =
     (case net_add nt s index d of None \<Rightarrow> None | Some nt' \<Rightarrow> add_entries nt' es d)"
  by (simp_all add: add_entries_def split: option.splits)

lemma sum_entries_append:
  "sum_entries nt (es @ fs) acc =
     (case sum_entries nt es acc of None \<Rightarrow> None | Some acc' \<Rightarrow> sum_entries nt fs acc')"
  unfolding sum_entries_def by (rule for_loop_append)

lemma add_entries_append:
  "add_entries nt (es @ fs) d =
     (case add_entries nt es d of None \<Rightarrow> None | Some nt' \<Rightarrow> add_entries nt' fs d)"
  unfolding add_entries_def by (rule for_loop_append)

lemma six_value_tuples_entries:
  "six_value_tuples ops nt fb base acc =
     sum_entries nt (map (\<lambda>i. (base + i, six_index ops fb i)) [0, 1, 2, 3]) acc"
  by (simp add: six_value_tuples_def upt_4 sum_entries_simps split: option.splits)

lemma six_update_tuples_entries:
  "six_update_tuples ops fb base d nt =
     add_entries nt (map (\<lambda>i. (base + i, six_index ops fb i)) [0, 1, 2, 3]) d"
  by (simp add: six_update_tuples_def upt_4 add_entries_simps split: option.splits)


lemma six_value_rotations_entries:
  "six_value_rotations ops nt base (fb, acc) =
     (let r = rotate_clockwise ops in
      case sum_entries nt
             (map (\<lambda>i. (base + 4 + i, six_index ops (r fb) i)) [0, 1, 2, 3]
              @ map (\<lambda>i. (base + 8 + i, six_index ops (r (r fb)) i)) [0, 1, 2, 3]
              @ map (\<lambda>i. (base + 12 + i, six_index ops (r (r (r fb))) i)) [0, 1, 2, 3]) acc of
        None \<Rightarrow> None
      | Some acc' \<Rightarrow> Some (r (r (r fb)), acc'))"
  unfolding six_value_rotations_def upt_1_4 Let_def sum_entries_append
  by (simp add: six_value_tuples_entries split: option.splits)

lemma six_update_rotations_entries:
  "six_update_rotations ops base d (fb, nt) =
     (let r = rotate_clockwise ops in
      case add_entries nt
             (map (\<lambda>i. (base + 4 + i, six_index ops (r fb) i)) [0, 1, 2, 3]
              @ map (\<lambda>i. (base + 8 + i, six_index ops (r (r fb)) i)) [0, 1, 2, 3]
              @ map (\<lambda>i. (base + 12 + i, six_index ops (r (r (r fb))) i)) [0, 1, 2, 3]) d of
        None \<Rightarrow> None
      | Some nt' \<Rightarrow> Some (r (r (r fb)), nt'))"
  unfolding six_update_rotations_def upt_1_4 Let_def add_entries_append
  by (simp add: six_update_tuples_entries split: option.splits)

lemma six_entries_unfold:
  "six_entries ops b =
     (let r = rotate_clockwise ops; m = reflect_horizontal ops b in
      map (\<lambda>i. (0 + i, six_index ops b i)) [0, 1, 2, 3]
      @ (map (\<lambda>i. (0 + 4 + i, six_index ops (r b) i)) [0, 1, 2, 3]
         @ map (\<lambda>i. (0 + 8 + i, six_index ops (r (r b)) i)) [0, 1, 2, 3]
         @ map (\<lambda>i. (0 + 12 + i, six_index ops (r (r (r b))) i)) [0, 1, 2, 3])
      @ map (\<lambda>i. (16 + i, six_index ops m i)) [0, 1, 2, 3]
      @ (map (\<lambda>i. (16 + 4 + i, six_index ops (r m) i)) [0, 1, 2, 3]
         @ map (\<lambda>i. (16 + 8 + i, six_index ops (r (r m)) i)) [0, 1, 2, 3]
         @ map (\<lambda>i. (16 + 12 + i, six_index ops (r (r (r m))) i)) [0, 1, 2, 3]))"
  by (simp add: six_entries_def variants_def Let_def)

lemma six_calculate_state_value_entries:
  "six_calculate_state_value ops nt b = sum_entries nt (six_entries ops b) 0"
  unfolding six_calculate_state_value_def six_entries_unfold Let_def sum_entries_append
    six_value_tuples_entries six_value_rotations_entries
  by (simp split: option.splits)

lemma six_update_net_entries:
  "six_update_net ops nt b d = add_entries nt (six_entries ops b) d"
  unfolding six_update_net_def six_entries_unfold Let_def add_entries_append
    six_update_tuples_entries six_update_rotations_entries
  by (simp split: option.splits)

lemma four_calculate_state_value_entries:
  "four_calculate_state_value ops nt b = sum_entries nt (four_entries ops b) 0"
  by (simp add: four_calculate_state_value_def four_entries_def upt_4 sum_entries_simps
      split: option.splits)

lemma four_update_net_entries:
  "four_update_net ops nt b d = add_entries nt (four_entries ops b) d"
  by (simp add: four_update_net_def four_entries_def upt_4 add_entries_simps add.commute
      split: option.splits)

lemma net_at_Some:
  "net_at nt s index = Some w \<longleftrightarrow>
     s < length nt \<and> address index < wsize (nt ! s) \<and> w = wvalue (nt ! s) (address index)"
  by (auto simp: net_at_def weight_at_def)

lemma net_add_Some:
  "net_add nt s index d = Some nt' \<longleftrightarrow>
     s < length nt \<and> address index < wsize (nt ! s)
     \<and> nt' = nt[s := (nt ! s)\<lparr>wvalue := (wvalue (nt ! s))
                    (address index := float_plus_assign (wvalue (nt ! s) (address index)) d)\<rparr>]"
  by (auto simp: net_add_def weight_add_def split: option.splits)

lemma net_add_length:
  "net_add nt s index d = Some nt' \<Longrightarrow> length nt' = length nt"
  by (auto simp: net_add_Some)

lemma net_add_wsize:
  "net_add nt s index d = Some nt' \<Longrightarrow> wsize (nt' ! t) = wsize (nt ! t)"
  by (cases "t = s"; cases "t < length nt") (auto simp: net_add_Some)

lemma net_at_net_add_same:
  "net_add nt s index d = Some nt' \<Longrightarrow>
     net_at nt' s index = Some (float_plus_assign (wvalue (nt ! s) (address index)) d)"
  by (auto simp: net_add_Some net_at_def weight_at_def)

lemma net_at_net_add_other:
  "net_add nt s index d = Some nt' \<Longrightarrow> t \<noteq> s \<Longrightarrow> net_at nt' t index' = net_at nt t index'"
  by (auto simp: net_add_Some net_at_def weight_at_def)

lemma add_entries_length:
  "add_entries nt es d = Some nt' \<Longrightarrow> length nt' = length nt"
proof (induction es arbitrary: nt)
  case Nil
  then show ?case by (simp add: add_entries_simps)
next
  case (Cons e es)
  then show ?case
    by (cases e) (auto simp: add_entries_simps split: option.splits dest: net_add_length)
qed

lemma add_entries_wsize:
  "add_entries nt es d = Some nt' \<Longrightarrow> wsize (nt' ! t) = wsize (nt ! t)"
proof (induction es arbitrary: nt)
  case Nil
  then show ?case by (simp add: add_entries_simps)
next
  case (Cons e es)
  then show ?case
    by (cases e) (auto simp: add_entries_simps split: option.splits dest: net_add_wsize)
qed

lemma add_entries_other:
  "add_entries nt es d = Some nt' \<Longrightarrow> t \<notin> fst ` set es \<Longrightarrow>
     net_at nt' t index = net_at nt t index"
proof (induction es arbitrary: nt)
  case Nil
  then show ?case by (simp add: add_entries_simps)
next
  case (Cons e es)
  obtain s i where e: "e = (s, i)" by (cases e)
  from Cons.prems e obtain n1 where n1: "net_add nt s i d = Some n1"
    and rest: "add_entries n1 es d = Some nt'"
    by (auto simp: add_entries_simps split: option.splits)
  from Cons.prems e have "t \<noteq> s" "t \<notin> fst ` set es"
    by auto
  with Cons.IH [OF rest] net_at_net_add_other [OF n1] show ?case
    by simp
qed

lemma sum_entries_cong:
  "(\<And>s i. (s, i) \<in> set es \<Longrightarrow> net_at n1 s i = net_at nt s i) \<Longrightarrow>
     sum_entries n1 es acc = sum_entries nt es acc"
proof (induction es arbitrary: acc)
  case Nil
  then show ?case by (simp add: sum_entries_simps)
next
  case (Cons e es)
  obtain s i where e: "e = (s, i)" by (cases e)
  with Cons show ?case
    by (simp add: sum_entries_simps split: option.splits)
qed

text \<open>
  An update of entries in pairwise different shards replaces each of them by the result
  of \<^verbatim>\<open>+=\<close> on its old value, and leaves every other address of every shard as it was.
\<close>

lemma add_entries_values:
  assumes "distinct (map fst es)" and "add_entries nt es d = Some nt'" and "(s, i) \<in> set es"
  shows "net_at nt s i = Some (wvalue (nt ! s) (address i))
       \<and> net_at nt' s i = Some (float_plus_assign (wvalue (nt ! s) (address i)) d)"
  using assms
proof (induction es arbitrary: nt)
  case Nil
  then show ?case by simp
next
  case (Cons e es)
  obtain t j where e: "e = (t, j)" by (cases e)
  from Cons.prems e obtain n1 where n1: "net_add nt t j d = Some n1"
    and rest: "add_entries n1 es d = Some nt'"
    by (auto simp: add_entries_simps split: option.splits)
  from Cons.prems e have fresh: "t \<notin> fst ` set es" and dist: "distinct (map fst es)"
    by auto
  show ?case
  proof (cases "(s, i) = (t, j)")
    case True
    from n1 have "net_at nt t j = Some (wvalue (nt ! t) (address j))"
      by (simp add: net_add_Some net_at_Some)
    moreover have "net_at nt' t j = Some (float_plus_assign (wvalue (nt ! t) (address j)) d)"
      using add_entries_other [OF rest fresh] net_at_net_add_same [OF n1] by simp
    ultimately show ?thesis
      using True by simp
  next
    case False
    with Cons.prems e have in_rest: "(s, i) \<in> set es"
      by auto
    with fresh have st: "s \<noteq> t"
      by force
    from n1 st have "net_at n1 s i = net_at nt s i"
      by (rule net_at_net_add_other)
    moreover from n1 st have "wvalue (n1 ! s) (address i) = wvalue (nt ! s) (address i)"
      by (auto simp: net_add_Some)
    ultimately show ?thesis
      using Cons.IH [OF dist rest in_rest] by simp
  qed
qed

lemma net_add_unchanged:
  assumes "net_add nt t j d = Some n1" and "t = s \<longrightarrow> address j \<noteq> a"
  shows "wvalue (n1 ! s) a = wvalue (nt ! s) a"
  using assms by (cases "t = s") (auto simp: net_add_Some)

lemma add_entries_unchanged:
  assumes "add_entries nt es d = Some nt'" and "\<forall>i. (s, i) \<in> set es \<longrightarrow> address i \<noteq> a"
  shows "wvalue (nt' ! s) a = wvalue (nt ! s) a"
  using assms
proof (induction es arbitrary: nt)
  case Nil
  then show ?case by (simp add: add_entries_simps)
next
  case (Cons e es)
  obtain t j where e: "e = (t, j)" by (cases e)
  from Cons.prems e obtain n1 where n1: "net_add nt t j d = Some n1"
    and rest: "add_entries n1 es d = Some nt'"
    by (auto simp: add_entries_simps split: option.splits)
  from Cons.prems(2) e have "t = s \<longrightarrow> address j \<noteq> a"
    by auto
  from net_add_unchanged [OF n1 this] Cons.IH [OF rest] Cons.prems(2) show ?case
    by simp
qed

lemma add_entries_defined:
  assumes "\<forall>e\<in>set es. fst e < length nt \<and> address (snd e) < wsize (nt ! fst e)"
  shows "\<exists>nt'. add_entries nt es d = Some nt'"
  using assms
proof (induction es arbitrary: nt)
  case Nil
  then show ?case by (simp add: add_entries_simps)
next
  case (Cons e es)
  obtain s i where e: "e = (s, i)" by (cases e)
  with Cons.prems have "s < length nt \<and> address i < wsize (nt ! s)"
    by simp
  then obtain n1 where n1: "net_add nt s i d = Some n1"
    by (auto simp: net_add_Some)
  have "\<exists>nt'. add_entries n1 es d = Some nt'"
    by (rule Cons.IH)
      (use Cons.prems in \<open>simp add: net_add_length [OF n1] net_add_wsize [OF n1]\<close>)
  with n1 e show ?case
    by (simp add: add_entries_simps)
qed

lemma sum_entries_defined:
  assumes "\<forall>e\<in>set es. fst e < length nt \<and> address (snd e) < wsize (nt ! fst e)"
  shows "\<exists>v. sum_entries nt es acc = Some v"
  using assms
proof (induction es arbitrary: acc)
  case Nil
  then show ?case by (simp add: sum_entries_simps)
next
  case (Cons e es)
  obtain s i where e: "e = (s, i)" by (cases e)
  with Cons.prems have "net_at nt s i = Some (wvalue (nt ! s) (address i))"
    by (simp add: net_at_Some)
  moreover have "\<exists>v. sum_entries nt es (double_plus acc (wvalue (nt ! s) (address i))) = Some v"
    by (rule Cons.IH) (use Cons.prems in simp)
  ultimately show ?case
    by (simp add: e sum_entries_simps)
qed


lemma sum_entries_Some_in_range:
  assumes "sum_entries nt es acc = Some v"
  shows "\<forall>e\<in>set es. fst e < length nt \<and> address (snd e) < wsize (nt ! fst e)"
  using assms
proof (induction es arbitrary: acc)
  case Nil
  then show ?case by simp
next
  case (Cons e es)
  obtain s i where e: "e = (s, i)" by (cases e)
  from Cons.prems e obtain w where w: "net_at nt s i = Some w"
    and rest: "sum_entries nt es (double_plus acc w) = Some v"
    by (auto simp: sum_entries_simps split: option.splits)
  from w Cons.IH [OF rest] show ?case
    by (simp add: e net_at_Some)
qed

section \<open>The active entries of a board\<close>

lemma six_entries_shards: "map fst (six_entries ops b) = [0..<32]"
  by (simp add: six_entries_def upt_rec)

lemma four_entries_shards: "map fst (four_entries ops b) = [0, 4, 1, 5, 2, 6, 3, 7]"
  by (simp add: four_entries_def)

lemma six_entries_length: "length (six_entries ops b) = 32"
  using arg_cong [OF six_entries_shards, of length ops b] by simp

lemma four_entries_length: "length (four_entries ops b) = 8"
  using arg_cong [OF four_entries_shards, of length ops b] by simp

lemma six_entries_distinct: "distinct (map fst (six_entries ops b))"
  by (simp add: six_entries_shards)

lemma four_entries_distinct: "distinct (map fst (four_entries ops b))"
  by (simp add: four_entries_shards)

section \<open>Where value and update are defined\<close>

lemma six_address_bound:
  assumes "\<forall>p<16. unat (cell_at ops fb p) < 16" and "i < 4"
  shows "address (six_index ops fb i) < 2 ^ 24"
proof -
  have "\<forall>j<6. unat (cell_at ops fb (tuple_index ! i ! j)) < 16"
    using assms tuple_index_positions by simp
  from six_index_sum(2) [OF this] show ?thesis
    by simp
qed

lemma four_address_bound:
  assumes "\<forall>p<16. unat (cell_at ops b p) < 16" and "i < 4"
  shows "address (four_row_index ops b i) < 2 ^ 16"
    and "address (four_col_index ops b i) < 2 ^ 16"
proof -
  have row: "unat (cell_at ops b (4 * i + j)) < 16" if "j < 4" for j
    using assms that by simp
  have col: "unat (cell_at ops b (i + 4 * j)) < 16" if "j < 4" for j
    using assms that by simp
  show "address (four_row_index ops b i) < 2 ^ 16"
    using net_index_sum(2) [OF row [of 0] row [of 1] row [of 2] row [of 3]]
    by (simp add: four_row_index_def Let_def)
  show "address (four_col_index ops b i) < 2 ^ 16"
    using net_index_sum(2) [OF col [of 0] col [of 1] col [of 2] col [of 3]]
    by (simp add: four_col_index_def)
qed

lemma in_set_concat_mapD:
  "e \<in> set (concat (map f ks)) \<Longrightarrow> \<exists>k\<in>set ks. e \<in> set (f k)"
  by auto

lemma in_set_mapD:
  "e \<in> set (map g js) \<Longrightarrow> \<exists>j\<in>set js. e = g j"
  by auto

lemma variants_length: "length (variants ops b) = 8"
  by (simp add: variants_def Let_def)

lemma six_entries_in_range:
  assumes len: "32 \<le> length nt"
    and size: "\<forall>s<32. 2 ^ 24 \<le> wsize (nt ! s)"
    and cells: "\<forall>fb\<in>set (variants ops b). \<forall>p<16. unat (cell_at ops fb p) < 16"
  shows "\<forall>e\<in>set (six_entries ops b). fst e < length nt \<and> address (snd e) < wsize (nt ! fst e)"
proof
  fix e assume "e \<in> set (six_entries ops b)"
  then obtain k where k: "k \<in> set [0, 1, 2, 3, 4, 5, 6, 7::nat]"
    and "e \<in> set (map (\<lambda>i. (4 * k + i, six_index ops (variants ops b ! k) i)) [0, 1, 2, 3])"
    unfolding six_entries_def by (blast dest: in_set_concat_mapD)
  then obtain i where i: "i \<in> set [0, 1, 2, 3::nat]"
    and e: "e = (4 * k + i, six_index ops (variants ops b ! k) i)"
    by (blast dest: in_set_mapD)
  from k have k8: "k < 8" by auto
  from i have i4: "i < 4" by auto
  from k8 have "variants ops b ! k \<in> set (variants ops b)"
    by (simp add: variants_length)
  with cells have "\<forall>p<16. unat (cell_at ops (variants ops b ! k) p) < 16"
    by blast
  from six_address_bound [OF this i4] have a: "address (snd e) < 2 ^ 24"
    by (simp add: e)
  from k8 i4 have s: "fst e < 32"
    by (simp add: e)
  with size have "2 ^ 24 \<le> wsize (nt ! fst e)"
    by blast
  with a s len show "fst e < length nt \<and> address (snd e) < wsize (nt ! fst e)"
    by simp
qed

lemma four_entries_in_range:
  assumes len: "8 \<le> length nt"
    and size: "\<forall>s<8. 2 ^ 16 \<le> wsize (nt ! s)"
    and cells: "\<forall>p<16. unat (cell_at ops b p) < 16"
  shows "\<forall>e\<in>set (four_entries ops b). fst e < length nt \<and> address (snd e) < wsize (nt ! fst e)"
proof
  fix e assume "e \<in> set (four_entries ops b)"
  then obtain i where i: "i \<in> set [0, 1, 2, 3::nat]"
    and "e \<in> set [(i, four_row_index ops b i), (4 + i, four_col_index ops b i)]"
    unfolding four_entries_def by (blast dest: in_set_concat_mapD)
  then have e: "e = (i, four_row_index ops b i) \<or> e = (4 + i, four_col_index ops b i)"
    by simp
  from i have i4: "i < 4" by auto
  from e four_address_bound [OF cells i4] have a: "address (snd e) < 2 ^ 16"
    by auto
  from e i4 have s: "fst e < 8"
    by auto
  with size have "2 ^ 16 \<le> wsize (nt ! fst e)"
    by blast
  with a s len show "fst e < length nt \<and> address (snd e) < wsize (nt ! fst e)"
    by simp
qed

text \<open>
  Where every entry is a quarter of an integer and the partial sums stay below \<open>2^53\<close>
  quarters, the \<^verbatim>\<open>double\<close> accumulator holds the exact sum.
\<close>

lemma sum_entries_exact:
  assumes "\<forall>e\<in>set es. fst e < length nt \<and> address (snd e) < wsize (nt ! fst e)"
    and "\<forall>e\<in>set es. \<exists>m. wvalue (nt ! fst e) (address (snd e)) = of_int m / 4 \<and> \<bar>m\<bar> \<le> B"
    and "acc = of_int a / 4" and "\<bar>a\<bar> + int (length es) * B < 2 ^ 53"
  shows "sum_entries nt es acc
           = Some (acc + sum_list (map (\<lambda>e. wvalue (nt ! fst e) (address (snd e))) es))"
  using assms
proof (induction es arbitrary: acc a)
  case Nil
  then show ?case by (simp add: sum_entries_simps)
next
  case (Cons e es)
  obtain s i where e: "e = (s, i)" by (cases e)
  from Cons.prems(2) e obtain m where m: "wvalue (nt ! s) (address i) = of_int m / 4"
    and mb: "\<bar>m\<bar> \<le> B"
    by auto
  from mb have B: "0 \<le> B"
    by simp
  then have nn: "0 \<le> int (length es) * B"
    by simp
  have "int (length (e # es)) * B = B + int (length es) * B"
    by (simp add: distrib_right)
  with Cons.prems(4) have total: "\<bar>a\<bar> + B + int (length es) * B < 2 ^ 53"
    by simp
  have "\<bar>a + m\<bar> \<le> \<bar>a\<bar> + B"
    using mb by linarith
  with total nn have small: "\<bar>a + m\<bar> < 2 ^ 53"
    by linarith
  have "double_plus acc (wvalue (nt ! s) (address i)) = to_double (of_int (a + m) / 4)"
    by (simp add: double_plus_def Cons.prems(3) m add_divide_distrib)
  also have "\<dots> = of_int (a + m) / 4"
    using small by (rule to_double_quarters)
  finally have step: "double_plus acc (wvalue (nt ! s) (address i)) = of_int (a + m) / 4" .
  from \<open>\<bar>a + m\<bar> \<le> \<bar>a\<bar> + B\<close> total
  have bound: "\<bar>a + m\<bar> + int (length es) * B < 2 ^ 53"
    by linarith
  have "sum_entries nt es (of_int (a + m) / 4)
      = Some (of_int (a + m) / 4
              + sum_list (map (\<lambda>e. wvalue (nt ! fst e) (address (snd e))) es))"
    by (rule Cons.IH [OF _ _ refl bound]) (use Cons.prems in simp_all)
  moreover from Cons.prems(1) e have "net_at nt s i = Some (wvalue (nt ! s) (address i))"
    by (simp add: net_at_Some)
  ultimately have "sum_entries nt (e # es) acc
      = Some (of_int (a + m) / 4
              + sum_list (map (\<lambda>e. wvalue (nt ! fst e) (address (snd e))) es))"
    by (simp add: e sum_entries_simps step)
  also have "of_int (a + m) / 4 = acc + wvalue (nt ! s) (address i)"
    by (simp add: Cons.prems(3) m add_divide_distrib)
  finally show ?case
    by (simp add: e add.assoc)
qed

section \<open>The example board and tables\<close>

lemma nibble_grid_cells:
  "nibble_grid b \<Longrightarrow> \<forall>p<16. unat (cell_at grid_ops b p) < 16"
  by (simp add: nibble_grid_def list_all_length grid_ops_def)

lemma nibble_grid_nth: "nibble_grid b \<Longrightarrow> p < 16 \<Longrightarrow> unat (b ! p) < 16"
  by (simp add: nibble_grid_def list_all_length)

lemma nibble_grid_rotate: "nibble_grid b \<Longrightarrow> nibble_grid (rotate_clockwise grid_ops b)"
  by (simp add: nibble_grid_def grid_ops_def list.pred_map nibble_grid_nth)

lemma nibble_grid_reflect: "nibble_grid b \<Longrightarrow> nibble_grid (reflect_horizontal grid_ops b)"
  by (simp add: nibble_grid_def grid_ops_def list.pred_map nibble_grid_nth)

lemma nibble_grid_update: "nibble_grid b \<Longrightarrow> nibble_grid (b[k := 0])"
proof -
  assume g: "nibble_grid b"
  have "set (b[k := 0]) \<subseteq> insert 0 (set b)"
    by (rule set_update_subset_insert)
  with g show ?thesis
    by (auto simp: nibble_grid_def list_all_iff)
qed

lemma nibble_grid_slide: "nibble_grid b \<Longrightarrow> nibble_grid (snd (slide grid_ops b op))"
  by (simp add: grid_ops_def grid_slide_def nibble_grid_update)

lemma nibble_grid_variants:
  "nibble_grid b \<Longrightarrow> \<forall>fb\<in>set (variants grid_ops b). \<forall>p<16. unat (cell_at grid_ops fb p) < 16"
  by (simp add: variants_def Let_def nibble_grid_cells nibble_grid_rotate nibble_grid_reflect)

lemma nibble_grid_example: "nibble_grid example_board"
  by (simp add: nibble_grid_def example_board_def)

lemma constant_net_shape:
  assumes "0 < n"
  shows "length (constant_net c n len) = n"
    and "s < n \<Longrightarrow> wsize (constant_net c n len ! s) = len"
    and "s < n \<Longrightarrow> wvalue (constant_net c n len ! s) a = (if s = 0 then c else 0)"
  using assms by (simp_all add: constant_net_def new_weight_def nth_Cons split: nat.splits)

lemma example_net_shape:
  assumes "0 < n"
  shows "length (example_net n len) = n"
    and "s < n \<Longrightarrow> wsize (example_net n len ! s) = len"
    and "s < n \<Longrightarrow> wvalue (example_net n len ! s) a = (if s = 0 then 1 / 2 else 0)"
  using assms by (simp_all add: example_net_def constant_net_shape)

lemma heavy_net_shape:
  assumes "0 < n"
  shows "length (heavy_net n len) = n"
    and "s < n \<Longrightarrow> wsize (heavy_net n len ! s) = len"
    and "s < n \<Longrightarrow> wvalue (heavy_net n len ! s) a = (if s = 0 then 16777216 else 0)"
  using assms by (simp_all add: heavy_net_def constant_net_shape)

lemma sum_list_other_shards:
  fixes x y :: real
  assumes "0 \<notin> set ss"
  shows "sum_list (map (\<lambda>s. if s = 0 then x else y) ss) = real (length ss) * y"
  using assms by (induction ss) (auto simp: distrib_right)

text \<open>
  The value of a board whose active entries hold \<open>x\<close> in shard 0 and \<open>y\<close> in the other
  shards, both quarters of integers of moderate size: the sum is exact.
\<close>

lemma sum_entries_two_valued:
  assumes range: "\<forall>e\<in>set es. fst e < length nt \<and> address (snd e) < wsize (nt ! fst e)"
    and vals: "\<forall>e\<in>set es. wvalue (nt ! fst e) (address (snd e)) = (if fst e = 0 then x else y)"
    and x: "x = of_int mx / 4" "\<bar>mx\<bar> \<le> 2 ^ 40"
    and y: "y = of_int my / 4" "\<bar>my\<bar> \<le> 2 ^ 40"
    and shards: "map fst es = 0 # ss" "0 \<notin> set ss" "length ss < 32"
  shows "sum_entries nt es 0 = Some (x + real (length ss) * y)"
proof -
  have q: "\<forall>e\<in>set es. \<exists>m. wvalue (nt ! fst e) (address (snd e)) = of_int m / 4 \<and> \<bar>m\<bar> \<le> 2 ^ 40"
    using vals x y by auto
  have "length es = Suc (length ss)"
    using arg_cong [OF shards(1), of length] by simp
  with shards(3) have "int (length es) \<le> 32"
    by simp
  then have "int (length es) * 2 ^ 40 \<le> 32 * 2 ^ 40"
    by (rule mult_right_mono) simp
  then have b: "\<bar>0::int\<bar> + int (length es) * 2 ^ 40 < 2 ^ 53"
    by simp
  have "sum_entries nt es 0
      = Some (0 + sum_list (map (\<lambda>e. wvalue (nt ! fst e) (address (snd e))) es))"
    by (rule sum_entries_exact [OF range q _ b]) simp
  also have "map (\<lambda>e. wvalue (nt ! fst e) (address (snd e))) es
      = map (\<lambda>e. if fst e = 0 then x else y) es"
    by (rule map_cong) (use vals in simp_all)
  also have "\<dots> = map (\<lambda>s. if s = 0 then x else y) (map fst es)"
    by (simp add: comp_def)
  also have "sum_list \<dots> = x + real (length ss) * y"
    by (simp add: shards(1) sum_list_other_shards [OF shards(2)])
  finally show ?thesis
    by simp
qed

lemma six_shards_split:
  "map fst (six_entries ops b) = 0 # [1..<32]" "0 \<notin> set [1..<32]" "length [1..<32] < 32"
  by (simp_all add: six_entries_shards upt_conv_Cons del: upt_Suc)

lemma four_shards_split:
  "map fst (four_entries ops b) = 0 # [4, 1, 5, 2, 6, 3, 7]" "0 \<notin> set [4, 1, 5, 2, 6, 3, 7::nat]"
  "length [4, 1, 5, 2, 6, 3, 7::nat] < 32"
  by (simp_all add: four_entries_shards)

lemma constant_entries_in_range:
  assumes "nibble_grid b"
  shows "\<forall>e\<in>set (four_entries grid_ops b).
          fst e < length (constant_net c 8 65536)
          \<and> address (snd e) < wsize (constant_net c 8 65536 ! fst e)"
    and "\<forall>e\<in>set (six_entries grid_ops b).
          fst e < length (constant_net c 32 16777216)
          \<and> address (snd e) < wsize (constant_net c 32 16777216 ! fst e)"
proof -
  show "\<forall>e\<in>set (four_entries grid_ops b).
          fst e < length (constant_net c 8 65536)
          \<and> address (snd e) < wsize (constant_net c 8 65536 ! fst e)"
    by (rule four_entries_in_range)
      (simp_all add: constant_net_shape nibble_grid_cells [OF assms])
  show "\<forall>e\<in>set (six_entries grid_ops b).
          fst e < length (constant_net c 32 16777216)
          \<and> address (snd e) < wsize (constant_net c 32 16777216 ! fst e)"
    by (rule six_entries_in_range)
      (simp_all add: constant_net_shape nibble_grid_variants [OF assms])
qed

lemma constant_value:
  assumes g: "nibble_grid b" and c: "c = of_int m / 4" "\<bar>m\<bar> \<le> 2 ^ 40"
  shows "six_calculate_state_value grid_ops (constant_net c 32 16777216) b = Some c"
    and "four_calculate_state_value grid_ops (constant_net c 8 65536) b = Some c"
proof -
  let ?n6 = "constant_net c 32 16777216" and ?n4 = "constant_net c 8 65536"
  have z: "(0::real) = of_int 0 / 4" "\<bar>0::int\<bar> \<le> 2 ^ 40"
    by simp_all
  have v6: "\<forall>e\<in>set (six_entries grid_ops b).
      wvalue (?n6 ! fst e) (address (snd e)) = (if fst e = 0 then c else 0)"
    using constant_entries_in_range(2) [OF g, of c] by (simp add: constant_net_shape)
  have v4: "\<forall>e\<in>set (four_entries grid_ops b).
      wvalue (?n4 ! fst e) (address (snd e)) = (if fst e = 0 then c else 0)"
    using constant_entries_in_range(1) [OF g, of c] by (simp add: constant_net_shape)
  from sum_entries_two_valued [OF constant_entries_in_range(2) [OF g] v6 c z six_shards_split]
  show "six_calculate_state_value grid_ops ?n6 b = Some c"
    by (simp add: six_calculate_state_value_entries)
  from sum_entries_two_valued [OF constant_entries_in_range(1) [OF g] v4 c z four_shards_split]
  show "four_calculate_state_value grid_ops ?n4 b = Some c"
    by (simp add: four_calculate_state_value_entries)
qed

lemma example_value_six:
  assumes "nibble_grid b"
  shows "six_calculate_state_value grid_ops (example_net 32 16777216) b = Some (1 / 2)"
  unfolding example_net_def by (rule constant_value(1) [OF assms, of _ 2]) simp_all

lemma example_value_four:
  assumes "nibble_grid b"
  shows "four_calculate_state_value grid_ops (example_net 8 65536) b = Some (1 / 2)"
  unfolding example_net_def by (rule constant_value(2) [OF assms, of _ 2]) simp_all

lemma heavy_value_six:
  assumes "nibble_grid b"
  shows "six_calculate_state_value grid_ops (heavy_net 32 16777216) b = Some 16777216"
  unfolding heavy_net_def by (rule constant_value(1) [OF assms, of _ 67108864]) simp_all

lemma heavy_value_four:
  assumes "nibble_grid b"
  shows "four_calculate_state_value grid_ops (heavy_net 8 65536) b = Some 16777216"
  unfolding heavy_net_def by (rule constant_value(2) [OF assms, of _ 67108864]) simp_all

text \<open>The reward of the example slide is an \<^verbatim>\<open>int\<close>, and adding it to \<open>1/2\<close> is exact.\<close>

lemma double_plus_half:
  assumes "\<bar>r\<bar> < 2 ^ 32"
  shows "double_plus (1 / 2) (real_of_int r) = 1 / 2 + real_of_int r"
proof -
  have "\<bar>2 + 4 * r\<bar> \<le> 2 + 4 * \<bar>r\<bar>"
    by linarith
  with assms have "\<bar>2 + 4 * r\<bar> < 2 ^ 53"
    by simp
  from to_double_quarters [OF this] show ?thesis
    by (simp add: double_plus_def add_divide_distrib)
qed

lemma grid_reward_small: "\<bar>fst (slide grid_ops b op)\<bar> < 2 ^ 32"
proof -
  have "uint (b ! op) < 2 ^ 32"
    using uint_bounded [of "b ! op"] by simp
  then show ?thesis
    by (simp add: grid_ops_def grid_slide_def)
qed

lemma example_evaluation_six:
  assumes "nibble_grid b"
  shows "evaluation (six_calculate_state_value grid_ops (example_net 32 16777216)) grid_ops b op
           = Some (1 / 2 + real_of_int (fst (slide grid_ops b op)))"
  by (simp add: evaluation_def example_value_six [OF nibble_grid_slide [OF assms]]
      double_plus_half [OF grid_reward_small])

lemma example_evaluation_four:
  assumes "nibble_grid b"
  shows "evaluation (four_calculate_state_value grid_ops (example_net 8 65536)) grid_ops b op
           = Some (1 / 2 + real_of_int (fst (slide grid_ops b op)))"
  by (simp add: evaluation_def example_value_four [OF nibble_grid_slide [OF assms]]
      double_plus_half [OF grid_reward_small])

lemma example_slides:
  "slide grid_ops example_board 0 = (- 1, example_board)"
  "slide grid_ops example_board 1 = (3, example_board[1 := 0])"
  "slide grid_ops example_board (Suc 0) = (3, example_board[1 := 0])"
  "slide grid_ops example_board 2 = (3, example_board[2 := 0])"
  "slide grid_ops example_board 3 = (1, example_board[3 := 0])"
  by (simp_all add: grid_ops_def grid_slide_def example_board_def)

lemma example_afterstate_values:
  "six_calculate_state_value grid_ops (example_net 32 16777216) (example_board[k := 0])
     = Some (1 / 2)"
  "four_calculate_state_value grid_ops (example_net 8 65536) (example_board[k := 0])
     = Some (1 / 2)"
  by (simp_all add: example_value_six example_value_four nibble_grid_update nibble_grid_example)

lemma example_six_take_action:
  "six_take_action grid_ops (example_agent (example_net 32 16777216)) example_board
     = Some (Slide 1,
         (example_agent (example_net 32 16777216))
           \<lparr>episode_boards := [example_board[1 := 0]],
            episode_rewards := [3],
            episode_values := [0]\<rparr>)"
  by (simp add: six_take_action_def opcode_def six_try_step legal_def example_slides
      example_evaluation_six [OF nibble_grid_example] example_afterstate_values
      example_agent_def double_to_int_def)

lemma example_four_take_action:
  "four_take_action grid_ops (example_agent (example_net 8 65536)) example_board
     = Some (Slide 1,
         (example_agent (example_net 8 65536))
           \<lparr>episode_boards := [example_board[1 := 0]],
            episode_rewards := [3],
            episode_values := [3]\<rparr>)"
  by (simp add: four_take_action_def opcode_def four_try_step legal_def example_slides
      example_evaluation_four [OF nibble_grid_example] example_agent_def double_to_int_def)

section \<open>The effect of an update on the value\<close>

lemma float_plus_assign_quarters:
  assumes "w = of_int m / 4" "d = of_int k / 4" "\<bar>m + k\<bar> < 2 ^ 24"
  shows "float_plus_assign w d = w + d"
proof -
  have s: "w + d = of_int (m + k) / 4"
    by (simp add: assms(1,2) add_divide_distrib)
  from assms(3) have "\<bar>m + k\<bar> < 2 ^ 53"
    by simp
  then have "to_double (w + d) = w + d"
    unfolding s by (rule to_double_quarters)
  moreover have "to_float (w + d) = w + d"
    unfolding s using assms(3) by (rule to_float_quarters)
  ultimately show ?thesis
    by (simp add: float_plus_assign_def double_plus_def)
qed

lemma float_plus_assign_examples:
  "float_plus_assign (1 / 2) (1 / 4) = 3 / 4" "float_plus_assign 0 (1 / 4) = 1 / 4"
  "float_plus_assign 0 1 = 1" "float_plus_assign 16777216 1 = 16777216"
proof -
  show "float_plus_assign (1 / 2) (1 / 4) = 3 / 4"
    using float_plus_assign_quarters [of "1 / 2" 2 "1 / 4" 1] by simp
  show "float_plus_assign 0 (1 / 4) = 1 / 4"
    using float_plus_assign_quarters [of 0 0 "1 / 4" 1] by simp
  show "float_plus_assign 0 1 = 1"
    using float_plus_assign_quarters [of 0 0 1 4] by simp
  have "to_double 16777217 = 16777217"
    using to_double_of_int [of 16777217] by simp
  then show "float_plus_assign 16777216 1 = 16777216"
    by (simp add: float_plus_assign_def double_plus_def to_float_tie)
qed

lemma add_entries_Some_in_range:
  assumes "distinct (map fst es)" and "add_entries nt es d = Some nt'"
  shows "\<forall>e\<in>set es. fst e < length nt \<and> address (snd e) < wsize (nt ! fst e)"
proof
  fix e assume "e \<in> set es"
  then have "(fst e, snd e) \<in> set es"
    by simp
  from add_entries_values [OF assms this] show
    "fst e < length nt \<and> address (snd e) < wsize (nt ! fst e)"
    by (simp add: net_at_Some)
qed

lemma add_entries_new_values:
  assumes "distinct (map fst es)" and "add_entries nt es d = Some nt'"
  shows "\<forall>e\<in>set es. fst e < length nt' \<and> address (snd e) < wsize (nt' ! fst e)"
    and "\<forall>e\<in>set es. wvalue (nt' ! fst e) (address (snd e))
           = float_plus_assign (wvalue (nt ! fst e) (address (snd e))) d"
proof -
  have "fst e < length nt' \<and> address (snd e) < wsize (nt' ! fst e)
      \<and> wvalue (nt' ! fst e) (address (snd e))
           = float_plus_assign (wvalue (nt ! fst e) (address (snd e))) d"
    if "e \<in> set es" for e
  proof -
    from that have "(fst e, snd e) \<in> set es"
      by simp
    from add_entries_values [OF assms this] show ?thesis
      by (auto simp: net_at_Some)
  qed
  then show "\<forall>e\<in>set es. fst e < length nt' \<and> address (snd e) < wsize (nt' ! fst e)"
    and "\<forall>e\<in>set es. wvalue (nt' ! fst e) (address (snd e))
           = float_plus_assign (wvalue (nt ! fst e) (address (snd e))) d"
    by blast+
qed

text \<open>
  Where the entries and the amount are quarters of integers below \<open>2^20\<close> in magnitude,
  no addition rounds, and the update raises the sum by the amount for each entry.
\<close>

lemma update_rise_exact:
  assumes dist: "distinct (map fst es)" and upd: "add_entries nt es d = Some nt'"
    and q: "\<forall>e\<in>set es. \<exists>m. wvalue (nt ! fst e) (address (snd e)) = of_int m / 4
                               \<and> \<bar>m\<bar> \<le> 2 ^ 20"
    and d: "d = of_int k / 4" "\<bar>k\<bar> \<le> 2 ^ 20" and len: "length es \<le> 32"
  shows "\<exists>v. sum_entries nt es 0 = Some v
           \<and> sum_entries nt' es 0 = Some (v + real (length es) * d)"
proof -
  let ?w = "\<lambda>e. wvalue (nt ! fst e) (address (snd e))"
  let ?w' = "\<lambda>e. wvalue (nt' ! fst e) (address (snd e))"
  note r = add_entries_Some_in_range [OF dist upd]
  note r' = add_entries_new_values [OF dist upd]
  from len have "int (length es) \<le> 32"
    by simp
  then have l0: "int (length es) * 2 ^ 20 \<le> 32 * 2 ^ 20"
    and l1: "int (length es) * 2 ^ 21 \<le> 32 * 2 ^ 21"
    by (intro mult_right_mono; simp)+
  from l0 have b0: "\<bar>0::int\<bar> + int (length es) * 2 ^ 20 < 2 ^ 53"
    by simp
  from l1 have b1: "\<bar>0::int\<bar> + int (length es) * 2 ^ 21 < 2 ^ 53"
    by simp
  have new: "?w' e = ?w e + d \<and> (\<exists>m. ?w' e = of_int m / 4 \<and> \<bar>m\<bar> \<le> 2 ^ 21)"
    if "e \<in> set es" for e
  proof -
    from q that obtain m where m: "?w e = of_int m / 4" "\<bar>m\<bar> \<le> 2 ^ 20"
      by blast
    with d(2) have s: "\<bar>m + k\<bar> \<le> 2 ^ 21"
      by simp
    then have "\<bar>m + k\<bar> < 2 ^ 24"
      by simp
    from float_plus_assign_quarters [OF m(1) d(1) this] r'(2) that
    have e: "?w' e = ?w e + d"
      by simp
    then have "?w' e = of_int (m + k) / 4"
      by (simp add: m(1) d(1) add_divide_distrib)
    with e s show ?thesis
      by blast
  qed
  have "sum_entries nt es 0 = Some (0 + sum_list (map ?w es))"
    by (rule sum_entries_exact [OF r q _ b0]) simp
  moreover have "sum_entries nt' es 0 = Some (0 + sum_list (map ?w' es))"
  proof (rule sum_entries_exact [OF r'(1) _ _ b1])
    show "\<forall>e\<in>set es. \<exists>m. ?w' e = of_int m / 4 \<and> \<bar>m\<bar> \<le> 2 ^ 21"
      using new by blast
  qed simp
  moreover have "map ?w' es = map (\<lambda>e. ?w e + d) es"
    by (rule map_cong) (use new in simp_all)
  moreover have "sum_list (map (\<lambda>e. ?w e + d) es) = sum_list (map ?w es) + real (length es) * d"
    by (simp add: sum_list_addf sum_list_triv)
  ultimately show ?thesis
    by simp
qed

lemma constant_update_value:
  assumes g: "nibble_grid b"
    and x: "float_plus_assign c d = of_int mx / 4" "\<bar>mx\<bar> \<le> 2 ^ 40"
    and y: "float_plus_assign 0 d = of_int my / 4" "\<bar>my\<bar> \<le> 2 ^ 40"
  shows "\<exists>nt'. four_update_net grid_ops (constant_net c 8 65536) b d = Some nt'
           \<and> four_calculate_state_value grid_ops nt' b
               = Some (float_plus_assign c d + 7 * float_plus_assign 0 d)"
    and "\<exists>nt'. six_update_net grid_ops (constant_net c 32 16777216) b d = Some nt'
           \<and> six_calculate_state_value grid_ops nt' b
               = Some (float_plus_assign c d + 31 * float_plus_assign 0 d)"
proof -
  let ?n4 = "constant_net c 8 65536" and ?e4 = "four_entries grid_ops b"
  note r4 = constant_entries_in_range(1) [OF g, of c]
  from add_entries_defined [OF r4, of d] obtain n4 where n4: "add_entries ?n4 ?e4 d = Some n4"
    by blast
  note new4 = add_entries_new_values [OF four_entries_distinct n4]
  have "\<forall>e\<in>set ?e4. wvalue (n4 ! fst e) (address (snd e))
      = (if fst e = 0 then float_plus_assign c d else float_plus_assign 0 d)"
    using new4(2) r4 by (simp add: constant_net_shape)
  from sum_entries_two_valued [OF new4(1) this x y four_shards_split] n4
  show "\<exists>nt'. four_update_net grid_ops ?n4 b d = Some nt'
           \<and> four_calculate_state_value grid_ops nt' b
               = Some (float_plus_assign c d + 7 * float_plus_assign 0 d)"
    by (simp add: four_update_net_entries four_calculate_state_value_entries)
  let ?n6 = "constant_net c 32 16777216" and ?e6 = "six_entries grid_ops b"
  note r6 = constant_entries_in_range(2) [OF g, of c]
  from add_entries_defined [OF r6, of d] obtain n6 where n6: "add_entries ?n6 ?e6 d = Some n6"
    by blast
  note new6 = add_entries_new_values [OF six_entries_distinct n6]
  have "\<forall>e\<in>set ?e6. wvalue (n6 ! fst e) (address (snd e))
      = (if fst e = 0 then float_plus_assign c d else float_plus_assign 0 d)"
    using new6(2) r6 by (simp add: constant_net_shape)
  from sum_entries_two_valued [OF new6(1) this x y six_shards_split] n6
  show "\<exists>nt'. six_update_net grid_ops ?n6 b d = Some nt'
           \<and> six_calculate_state_value grid_ops nt' b
               = Some (float_plus_assign c d + 31 * float_plus_assign 0 d)"
    by (simp add: six_update_net_entries six_calculate_state_value_entries)
qed

lemma heavy_update_value:
  "\<exists>nt'. four_update_net grid_ops (heavy_net 8 65536) example_board 1 = Some nt'
      \<and> four_calculate_state_value grid_ops nt' example_board = Some 16777223"
  "\<exists>nt'. six_update_net grid_ops (heavy_net 32 16777216) example_board 1 = Some nt'
      \<and> six_calculate_state_value grid_ops nt' example_board = Some 16777247"
  using constant_update_value [OF nibble_grid_example, of 16777216 1 67108864 4]
  by (simp_all add: heavy_net_def float_plus_assign_examples)

text \<open>
  C4 as stated fails. In tables whose shard 0 holds \<open>2^24\<close> everywhere and whose other
  shards hold 0, the example board has value \<open>16777216\<close>. An update by 1 leaves the entry
  of shard 0 as it is, because \<open>16777217\<close> is not a \<^verbatim>\<open>float\<close> and the tie goes to
  \<open>16777216\<close>, and sets the other entries to 1. The value rises by 7 for the
  four_tuple_agent and by 31 for the six_tuple_agent, not by 8 and 32.
\<close>

theorem update_rise_counterexample:
  "\<not> raises_value_by (four_calculate_state_value grid_ops) (four_update_net grid_ops)
        (heavy_net 8 65536) example_board 1 8
   \<and> \<not> raises_value_by (six_calculate_state_value grid_ops) (six_update_net grid_ops)
        (heavy_net 32 16777216) example_board 1 32
   \<and> four_calculate_state_value grid_ops (heavy_net 8 65536) example_board = Some 16777216
   \<and> four_update_net grid_ops (heavy_net 8 65536) example_board 1 \<noteq> None
   \<and> four_calculate_state_value grid_ops
        (the (four_update_net grid_ops (heavy_net 8 65536) example_board 1)) example_board
       = Some 16777223
   \<and> six_calculate_state_value grid_ops (heavy_net 32 16777216) example_board = Some 16777216
   \<and> six_update_net grid_ops (heavy_net 32 16777216) example_board 1 \<noteq> None
   \<and> six_calculate_state_value grid_ops
        (the (six_update_net grid_ops (heavy_net 32 16777216) example_board 1)) example_board
       = Some 16777247"
proof -
  from heavy_update_value(1) obtain n4
    where n4: "four_update_net grid_ops (heavy_net 8 65536) example_board 1 = Some n4"
      and v4: "four_calculate_state_value grid_ops n4 example_board = Some 16777223"
    by blast
  from heavy_update_value(2) obtain n6
    where n6: "six_update_net grid_ops (heavy_net 32 16777216) example_board 1 = Some n6"
      and v6: "six_calculate_state_value grid_ops n6 example_board = Some 16777247"
    by blast
  show ?thesis
    using n4 v4 n6 v6 heavy_value_four [OF nibble_grid_example]
      heavy_value_six [OF nibble_grid_example]
    by (simp add: raises_value_by_def)
qed

text \<open>
  C4, amended. Both \<open>calculate_state_value\<close> and \<open>update_net\<close> of the six_tuple_agent go
  through the same sequence of (shard, index) pairs, the eight variants in canonical
  order crossed with the four tuples, on shards 0..31. An update by \<open>d\<close> that is defined
  replaces each of these 32 entries by the \<^verbatim>\<open>float\<close> that \<^verbatim>\<open>+=\<close> yields for it and \<open>d\<close>,
  and changes no other entry. Where no addition rounds (here: the active entries and \<open>d\<close>
  are quarters of integers of at most \<open>2^20\<close> in magnitude) the value of the same board
  rises by exactly \<open>32 * d\<close>. For the four_tuple_agent the sequence is row and column \<open>i\<close>
  for \<open>i = 0..3\<close>, on eight different shards, and the exact rise is \<open>8 * d\<close>.
\<close>

theorem update_net_visits_the_entries_of_the_value:
  "six_calculate_state_value ops nt b = sum_entries nt (six_entries ops b) 0
   \<and> six_update_net ops nt b d = add_entries nt (six_entries ops b) d
   \<and> map fst (six_entries ops b) = [0..<32]
   \<and> (\<forall>nt'. six_update_net ops nt b d = Some nt' \<longrightarrow>
          (\<forall>e\<in>set (six_entries ops b).
              net_at nt (fst e) (snd e) = Some (wvalue (nt ! fst e) (address (snd e)))
              \<and> net_at nt' (fst e) (snd e)
                  = Some (float_plus_assign (wvalue (nt ! fst e) (address (snd e))) d))
          \<and> (\<forall>s a. (\<forall>i. (s, i) \<in> set (six_entries ops b) \<longrightarrow> address i \<noteq> a) \<longrightarrow>
                 wvalue (nt' ! s) a = wvalue (nt ! s) a)
          \<and> ((\<forall>e\<in>set (six_entries ops b).
                 \<exists>m. wvalue (nt ! fst e) (address (snd e)) = of_int m / 4 \<and> \<bar>m\<bar> \<le> 2 ^ 20)
              \<and> (\<exists>k. d = of_int k / 4 \<and> \<bar>k\<bar> \<le> 2 ^ 20) \<longrightarrow>
              (\<exists>v. six_calculate_state_value ops nt b = Some v
                  \<and> six_calculate_state_value ops nt' b = Some (v + 32 * d))))
   \<and> four_calculate_state_value ops nt b = sum_entries nt (four_entries ops b) 0
   \<and> four_update_net ops nt b d = add_entries nt (four_entries ops b) d
   \<and> map fst (four_entries ops b) = [0, 4, 1, 5, 2, 6, 3, 7]
   \<and> (\<forall>nt'. four_update_net ops nt b d = Some nt' \<longrightarrow>
          (\<forall>e\<in>set (four_entries ops b).
              net_at nt (fst e) (snd e) = Some (wvalue (nt ! fst e) (address (snd e)))
              \<and> net_at nt' (fst e) (snd e)
                  = Some (float_plus_assign (wvalue (nt ! fst e) (address (snd e))) d))
          \<and> (\<forall>s a. (\<forall>i. (s, i) \<in> set (four_entries ops b) \<longrightarrow> address i \<noteq> a) \<longrightarrow>
                 wvalue (nt' ! s) a = wvalue (nt ! s) a)
          \<and> ((\<forall>e\<in>set (four_entries ops b).
                 \<exists>m. wvalue (nt ! fst e) (address (snd e)) = of_int m / 4 \<and> \<bar>m\<bar> \<le> 2 ^ 20)
              \<and> (\<exists>k. d = of_int k / 4 \<and> \<bar>k\<bar> \<le> 2 ^ 20) \<longrightarrow>
              (\<exists>v. four_calculate_state_value ops nt b = Some v
                  \<and> four_calculate_state_value ops nt' b = Some (v + 8 * d))))"
proof -
  have effect: "(\<forall>e\<in>set es.
              net_at nt (fst e) (snd e) = Some (wvalue (nt ! fst e) (address (snd e)))
              \<and> net_at nt' (fst e) (snd e)
                  = Some (float_plus_assign (wvalue (nt ! fst e) (address (snd e))) d))
          \<and> (\<forall>s a. (\<forall>i. (s, i) \<in> set es \<longrightarrow> address i \<noteq> a) \<longrightarrow>
                 wvalue (nt' ! s) a = wvalue (nt ! s) a)
          \<and> ((\<forall>e\<in>set es.
                 \<exists>m. wvalue (nt ! fst e) (address (snd e)) = of_int m / 4 \<and> \<bar>m\<bar> \<le> 2 ^ 20)
              \<and> (\<exists>k. d = of_int k / 4 \<and> \<bar>k\<bar> \<le> 2 ^ 20) \<longrightarrow>
              (\<exists>v. sum_entries nt es 0 = Some v
                  \<and> sum_entries nt' es 0 = Some (v + real (length es) * d)))"
    if dist: "distinct (map fst es)" and upd: "add_entries nt es d = Some nt'"
      and len: "length es \<le> 32" for es nt'
  proof (intro conjI ballI allI impI)
    fix e assume "e \<in> set es"
    then have "(fst e, snd e) \<in> set es"
      by simp
    from add_entries_values [OF dist upd this]
    show "net_at nt (fst e) (snd e) = Some (wvalue (nt ! fst e) (address (snd e)))"
      and "net_at nt' (fst e) (snd e)
             = Some (float_plus_assign (wvalue (nt ! fst e) (address (snd e))) d)"
      by simp_all
  next
    fix s a assume "\<forall>i. (s, i) \<in> set es \<longrightarrow> address i \<noteq> a"
    with upd show "wvalue (nt' ! s) a = wvalue (nt ! s) a"
      by (rule add_entries_unchanged)
  next
    assume "(\<forall>e\<in>set es.
                 \<exists>m. wvalue (nt ! fst e) (address (snd e)) = of_int m / 4 \<and> \<bar>m\<bar> \<le> 2 ^ 20)
              \<and> (\<exists>k. d = of_int k / 4 \<and> \<bar>k\<bar> \<le> 2 ^ 20)"
    then obtain k where q: "\<forall>e\<in>set es.
                 \<exists>m. wvalue (nt ! fst e) (address (snd e)) = of_int m / 4 \<and> \<bar>m\<bar> \<le> 2 ^ 20"
      and k: "d = of_int k / 4" "\<bar>k\<bar> \<le> 2 ^ 20"
      by blast
    show "\<exists>v. sum_entries nt es 0 = Some v
            \<and> sum_entries nt' es 0 = Some (v + real (length es) * d)"
      by (rule update_rise_exact [OF dist upd q k len])
  qed
  have six: "six_update_net ops nt b d = Some nt' \<Longrightarrow> add_entries nt (six_entries ops b) d = Some nt'"
    for nt'
    by (simp add: six_update_net_entries)
  have four: "four_update_net ops nt b d = Some nt' \<Longrightarrow> add_entries nt (four_entries ops b) d = Some nt'"
    for nt'
    by (simp add: four_update_net_entries)
  show ?thesis
    using effect [OF six_entries_distinct six, unfolded six_entries_length]
      effect [OF four_entries_distinct four, unfolded four_entries_length]
    by (simp add: six_update_net_entries six_calculate_state_value_entries six_entries_shards
        four_update_net_entries four_calculate_state_value_entries four_entries_shards)
qed

lemma example_addresses:
  "address (six_index grid_ops example_board 0) = 135984"
  "address (four_row_index grid_ops example_board 0) = 4912"
proof -
  have c: "\<forall>j<6. unat (cell_at grid_ops example_board (tuple_index ! 0 ! j)) < 16"
    using example_board_cells tuple_index_positions [of 0] by simp
  from six_index_sum(1) [OF c] show "address (six_index grid_ops example_board 0) = 135984"
    by (simp add: sum_lessThan_6 grid_ops_def example_board_def tuple_index_def)
  have "unat (cell_at grid_ops example_board 0) < 16" "unat (cell_at grid_ops example_board 1) < 16"
    "unat (cell_at grid_ops example_board 2) < 16" "unat (cell_at grid_ops example_board 3) < 16"
    using example_board_cells by simp_all
  from net_index_sum(1) [OF this]
  show "address (four_row_index grid_ops example_board 0) = 4912"
    by (simp add: four_row_index_def grid_ops_def example_board_def)
qed

lemma example_first_entries:
  "(0, six_index grid_ops example_board 0) \<in> set (six_entries grid_ops example_board)"
  "(0, i) \<in> set (six_entries grid_ops example_board) \<Longrightarrow> i = six_index grid_ops example_board 0"
  "(0, four_row_index grid_ops example_board 0) \<in> set (four_entries grid_ops example_board)"
  "(0, i) \<in> set (four_entries grid_ops example_board)
     \<Longrightarrow> i = four_row_index grid_ops example_board 0"
  "(4, four_col_index grid_ops example_board 0) \<in> set (four_entries grid_ops example_board)"
  "(16, six_index grid_ops (reflect_horizontal grid_ops example_board) 0)
     \<in> set (six_entries grid_ops example_board)"
  by (simp_all add: six_entries_def four_entries_def variants_def Let_def)

lemma example_net_quarters:
  assumes "\<forall>e\<in>set es. fst e < n \<and> address (snd e) < len"
  shows "\<forall>e\<in>set es. \<exists>m. wvalue (example_net n len ! fst e) (address (snd e)) = of_int m / 4
                              \<and> \<bar>m\<bar> \<le> 2 ^ 20"
proof
  fix e assume e: "e \<in> set es"
  with assms have "fst e < n"
    by simp
  then have "wvalue (example_net n len ! fst e) (address (snd e)) = (if fst e = 0 then 1 / 2 else 0)"
    by (simp add: example_net_shape)
  then show "\<exists>m. wvalue (example_net n len ! fst e) (address (snd e)) = of_int m / 4
                 \<and> \<bar>m\<bar> \<le> 2 ^ 20"
    by (cases "fst e = 0") (simp_all add: exI [of _ 2])
qed

lemma example_entries_in_range:
  assumes "nibble_grid b"
  shows "\<forall>e\<in>set (four_entries grid_ops b).
          fst e < length (example_net 8 65536)
          \<and> address (snd e) < wsize (example_net 8 65536 ! fst e)"
    and "\<forall>e\<in>set (six_entries grid_ops b).
          fst e < length (example_net 32 16777216)
          \<and> address (snd e) < wsize (example_net 32 16777216 ! fst e)"
  unfolding example_net_def by (rule constant_entries_in_range [OF assms])+

theorem update_net_visits_the_entries_of_the_value_witness:
  "six_update_net grid_ops (example_net 32 16777216) example_board (1 / 4) \<noteq> None
   \<and> six_calculate_state_value grid_ops (example_net 32 16777216) example_board = Some (1 / 2)
   \<and> six_calculate_state_value grid_ops
        (the (six_update_net grid_ops (example_net 32 16777216) example_board (1 / 4)))
        example_board = Some (1 / 2 + 32 * (1 / 4))
   \<and> net_at (the (six_update_net grid_ops (example_net 32 16777216) example_board (1 / 4)))
        0 (six_index grid_ops example_board 0) = Some (3 / 4)
   \<and> net_at (the (six_update_net grid_ops (example_net 32 16777216) example_board (1 / 4)))
        16 (six_index grid_ops (reflect_horizontal grid_ops example_board) 0) = Some (1 / 4)
   \<and> wvalue (the (six_update_net grid_ops (example_net 32 16777216) example_board (1 / 4)) ! 0)
        0 = 1 / 2
   \<and> four_update_net grid_ops (example_net 8 65536) example_board (1 / 4) \<noteq> None
   \<and> four_calculate_state_value grid_ops (example_net 8 65536) example_board = Some (1 / 2)
   \<and> four_calculate_state_value grid_ops
        (the (four_update_net grid_ops (example_net 8 65536) example_board (1 / 4)))
        example_board = Some (1 / 2 + 8 * (1 / 4))
   \<and> net_at (the (four_update_net grid_ops (example_net 8 65536) example_board (1 / 4)))
        0 (four_row_index grid_ops example_board 0) = Some (3 / 4)
   \<and> net_at (the (four_update_net grid_ops (example_net 8 65536) example_board (1 / 4)))
        4 (four_col_index grid_ops example_board 0) = Some (1 / 4)
   \<and> wvalue (the (four_update_net grid_ops (example_net 8 65536) example_board (1 / 4)) ! 0)
        0 = 1 / 2"
proof -
  let ?n6 = "example_net 32 16777216" and ?n4 = "example_net 8 65536"
  let ?e6 = "six_entries grid_ops example_board" and ?e4 = "four_entries grid_ops example_board"
  note r6 = example_entries_in_range(2) [OF nibble_grid_example]
  note r4 = example_entries_in_range(1) [OF nibble_grid_example]
  from add_entries_defined [OF r6, of "1 / 4"] obtain n6'
    where n6: "six_update_net grid_ops ?n6 example_board (1 / 4) = Some n6'"
    by (auto simp: six_update_net_entries)
  from add_entries_defined [OF r4, of "1 / 4"] obtain n4'
    where n4: "four_update_net grid_ops ?n4 example_board (1 / 4) = Some n4'"
    by (auto simp: four_update_net_entries)
  have q6: "\<forall>e\<in>set ?e6. \<exists>m. wvalue (?n6 ! fst e) (address (snd e)) = of_int m / 4
                               \<and> \<bar>m\<bar> \<le> 2 ^ 20"
    by (rule example_net_quarters [of _ 32 16777216]) (use r6 in \<open>auto simp: example_net_shape\<close>)
  have q4: "\<forall>e\<in>set ?e4. \<exists>m. wvalue (?n4 ! fst e) (address (snd e)) = of_int m / 4
                               \<and> \<bar>m\<bar> \<le> 2 ^ 20"
    by (rule example_net_quarters [of _ 8 65536]) (use r4 in \<open>auto simp: example_net_shape\<close>)
  have d: "\<exists>k. (1 / 4 :: real) = of_int k / 4 \<and> \<bar>k\<bar> \<le> 2 ^ 20"
    by (rule exI [of _ 1]) simp
  have a6: "\<forall>i. (0, i) \<in> set ?e6 \<longrightarrow> address i \<noteq> 0"
    using example_first_entries(2) example_addresses(1) by auto
  have a4: "\<forall>i. (0, i) \<in> set ?e4 \<longrightarrow> address i \<noteq> 0"
    using example_first_entries(4) example_addresses(2) by auto
  note t6 = update_net_visits_the_entries_of_the_value [of grid_ops ?n6 example_board "1 / 4"]
  note t4 = update_net_visits_the_entries_of_the_value [of grid_ops ?n4 example_board "1 / 4"]
  from t6 n6 q6 d have v6: "six_calculate_state_value grid_ops n6' example_board
      = Some (1 / 2 + 32 * (1 / 4))"
    using example_value_six [OF nibble_grid_example] by auto
  from t4 n4 q4 d have v4: "four_calculate_state_value grid_ops n4' example_board
      = Some (1 / 2 + 8 * (1 / 4))"
    using example_value_four [OF nibble_grid_example] by auto
  from t6 n6 have e6: "\<forall>e\<in>set ?e6. net_at n6' (fst e) (snd e)
      = Some (float_plus_assign (wvalue (?n6 ! fst e) (address (snd e))) (1 / 4))"
    by blast
  from t4 n4 have e4: "\<forall>e\<in>set ?e4. net_at n4' (fst e) (snd e)
      = Some (float_plus_assign (wvalue (?n4 ! fst e) (address (snd e))) (1 / 4))"
    by blast
  from t6 n6 a6 have u6: "wvalue (n6' ! 0) 0 = wvalue (?n6 ! 0) 0"
    by blast
  from t4 n4 a4 have u4: "wvalue (n4' ! 0) 0 = wvalue (?n4 ! 0) 0"
    by blast
  have "net_at n6' 0 (six_index grid_ops example_board 0) = Some (3 / 4)"
    using bspec [OF e6 example_first_entries(1)]
    by (simp add: example_net_shape float_plus_assign_examples)
  moreover have "net_at n6' 16 (six_index grid_ops (reflect_horizontal grid_ops example_board) 0)
      = Some (1 / 4)"
    using bspec [OF e6 example_first_entries(6)]
    by (simp add: example_net_shape float_plus_assign_examples)
  moreover have "net_at n4' 0 (four_row_index grid_ops example_board 0) = Some (3 / 4)"
    using bspec [OF e4 example_first_entries(3)]
    by (simp add: example_net_shape float_plus_assign_examples)
  moreover have "net_at n4' 4 (four_col_index grid_ops example_board 0) = Some (1 / 4)"
    using bspec [OF e4 example_first_entries(5)]
    by (simp add: example_net_shape float_plus_assign_examples)
  ultimately show ?thesis
    using n6 n4 v6 v4 u6 u4 example_value_six [OF nibble_grid_example]
      example_value_four [OF nibble_grid_example]
    by (simp add: example_net_shape)
qed

text \<open>
  C7. On a board where each of the four slides returns the sentinel \<open>-1\<close>, \<open>take_action\<close>
  of either agent returns the rejection action and the agent's state as it was: nothing
  is appended to the three trace sequences and the weight tables are not touched.
\<close>

theorem no_legal_slide_is_rejected:
  assumes "\<forall>op<4. fst (slide ops b op) = - 1"
  shows "four_take_action ops st b = Some (Reject, st)
       \<and> six_take_action ops st b = Some (Reject, st)"
proof -
  from assms have "fst (slide ops b 0) = - 1" "fst (slide ops b 1) = - 1"
    "fst (slide ops b 2) = - 1" "fst (slide ops b 3) = - 1"
    by simp_all
  then show ?thesis
    by (simp add: four_take_action_def six_take_action_def opcode_def four_try_def
        six_try_def case_prod_beta)
qed

lemma empty_grid_slides: "fst (slide grid_ops (replicate 16 0) op) = - 1"
  by (simp add: grid_ops_def grid_slide_def)

theorem no_legal_slide_is_rejected_witness:
  "four_take_action grid_ops (example_agent (example_net 8 65536)) (replicate 16 0)
     = Some (Reject, example_agent (example_net 8 65536))
   \<and> six_take_action grid_ops (example_agent (example_net 32 16777216)) (replicate 16 0)
     = Some (Reject, example_agent (example_net 32 16777216))"
proof -
  have h: "\<forall>op<4. fst (slide grid_ops (replicate 16 0) op) = - 1"
    by (simp add: empty_grid_slides)
  from no_legal_slide_is_rejected [OF h, of "example_agent (example_net 8 65536)"]
    no_legal_slide_is_rejected [OF h, of "example_agent (example_net 32 16777216)"]
  show ?thesis
    by simp
qed

lemma four_try_first_legal:
  assumes "best_reward best = - 1" and "legal ops b op"
    and "four_calculate_state_value ops nt (snd (slide ops b op)) = Some v"
  shows "four_try ops nt b op best =
           Some \<lparr>best_reward = fst (slide ops b op), best_action = int op,
                 best_after_state_value = double_plus v (real_of_int (fst (slide ops b op))),
                 best_after = snd (slide ops b op)\<rparr>"
  using assms by (simp add: four_try_step evaluation_def)

lemma six_try_first_legal:
  assumes "best_reward best = - 1" and "legal ops b op"
    and "six_calculate_state_value ops nt (snd (slide ops b op)) = Some v"
  shows "six_try ops nt b op best =
           Some \<lparr>best_reward = fst (slide ops b op), best_action = int op,
                 best_after_state_value = double_plus v (real_of_int (fst (slide ops b op))),
                 best_after = snd (slide ops b op),
                 best_episode_after_state_value = v\<rparr>"
  using assms by (simp add: six_try_step evaluation_def)

text \<open>
  C6. \<open>take_action\<close> tries the directions in the order 0, 1, 2, 3 and replaces its
  candidate only on a strictly greater evaluation (reward plus value of the afterstate)
  or when there is no candidate yet. So it rejects exactly when no direction is legal,
  and the direction it returns is legal, no legal direction has a greater evaluation,
  and every legal direction enumerated before it has a strictly smaller one: among
  directions of equal evaluation the lowest wins. The first legal direction met becomes
  the candidate whatever its evaluation. This holds for both agents.
\<close>

theorem greedy_choice_keeps_first_maximum:
  "opcode = [0, 1, 2, 3]
   \<and> (four_take_action ops st b = Some (act, st') \<longrightarrow>
        (act = Reject \<longleftrightarrow> (\<forall>op<4. \<not> legal ops b op))
        \<and> (\<forall>a. act = Slide a \<longrightarrow>
              (\<exists>op<4. a = int op \<and> legal ops b op
                 \<and> (\<exists>e. evaluation (four_calculate_state_value ops (net st)) ops b op = Some e
                       \<and> (\<forall>op'<4. legal ops b op' \<longrightarrow>
                             (\<exists>e'. evaluation (four_calculate_state_value ops (net st)) ops b op'
                                     = Some e'
                                   \<and> e' \<le> e \<and> (op' < op \<longrightarrow> e' < e)))))))
   \<and> (six_take_action ops st b = Some (act, st') \<longrightarrow>
        (act = Reject \<longleftrightarrow> (\<forall>op<4. \<not> legal ops b op))
        \<and> (\<forall>a. act = Slide a \<longrightarrow>
              (\<exists>op<4. a = int op \<and> legal ops b op
                 \<and> (\<exists>e. evaluation (six_calculate_state_value ops (net st)) ops b op = Some e
                       \<and> (\<forall>op'<4. legal ops b op' \<longrightarrow>
                             (\<exists>e'. evaluation (six_calculate_state_value ops (net st)) ops b op'
                                     = Some e'
                                   \<and> e' \<le> e \<and> (op' < op \<longrightarrow> e' < e)))))))
   \<and> (best_reward c4 = - 1 \<and> legal ops b op
        \<and> four_calculate_state_value ops nt (snd (slide ops b op)) = Some v \<longrightarrow>
        map_option best_action (four_try ops nt b op c4) = Some (int op))
   \<and> (best_reward c6 = - 1 \<and> legal ops b op
        \<and> six_calculate_state_value ops nt (snd (slide ops b op)) = Some v \<longrightarrow>
        map_option best_action (six_try ops nt b op c6) = Some (int op))"
proof (intro conjI impI)
  show "opcode = [0, 1, 2, 3]"
    by (rule opcode_def)
next
  assume "four_take_action ops st b = Some (act, st')"
  from four_take_action_cases [OF this]
  show "act = Reject \<longleftrightarrow> (\<forall>op<4. \<not> legal ops b op)"
    by auto
next
  assume "four_take_action ops st b = Some (act, st')"
  from four_take_action_cases [OF this]
  show "\<forall>a. act = Slide a \<longrightarrow>
          (\<exists>op<4. a = int op \<and> legal ops b op
             \<and> (\<exists>e. evaluation (four_calculate_state_value ops (net st)) ops b op = Some e
                   \<and> (\<forall>op'<4. legal ops b op' \<longrightarrow>
                         (\<exists>e'. evaluation (four_calculate_state_value ops (net st)) ops b op'
                                 = Some e'
                               \<and> e' \<le> e \<and> (op' < op \<longrightarrow> e' < e)))))"
    by (elim disjE) (simp, blast)
next
  assume "six_take_action ops st b = Some (act, st')"
  from six_take_action_cases [OF this]
  show "act = Reject \<longleftrightarrow> (\<forall>op<4. \<not> legal ops b op)"
    by auto
next
  assume "six_take_action ops st b = Some (act, st')"
  from six_take_action_cases [OF this]
  show "\<forall>a. act = Slide a \<longrightarrow>
          (\<exists>op<4. a = int op \<and> legal ops b op
             \<and> (\<exists>e. evaluation (six_calculate_state_value ops (net st)) ops b op = Some e
                   \<and> (\<forall>op'<4. legal ops b op' \<longrightarrow>
                         (\<exists>e'. evaluation (six_calculate_state_value ops (net st)) ops b op'
                                 = Some e'
                               \<and> e' \<le> e \<and> (op' < op \<longrightarrow> e' < e)))))"
    by (elim disjE) (simp, blast)
next
  assume "best_reward c4 = - 1 \<and> legal ops b op
        \<and> four_calculate_state_value ops nt (snd (slide ops b op)) = Some v"
  then show "map_option best_action (four_try ops nt b op c4) = Some (int op)"
    by (simp add: four_try_first_legal)
next
  assume "best_reward c6 = - 1 \<and> legal ops b op
        \<and> six_calculate_state_value ops nt (snd (slide ops b op)) = Some v"
  then show "map_option best_action (six_try ops nt b op c6) = Some (int op)"
    by (simp add: six_try_first_legal)
qed


lemma example_legal:
  "\<not> legal grid_ops example_board 0" "legal grid_ops example_board 1"
  "legal grid_ops example_board 2" "legal grid_ops example_board 3"
  by (simp_all add: legal_def example_slides)

theorem greedy_choice_keeps_first_maximum_witness:
  "four_take_action grid_ops (example_agent (example_net 8 65536)) example_board
     = Some (Slide 1,
         (example_agent (example_net 8 65536))
           \<lparr>episode_boards := [example_board[1 := 0]],
            episode_rewards := [3],
            episode_values := [3]\<rparr>)
   \<and> legal grid_ops example_board 1 \<and> legal grid_ops example_board 2
   \<and> evaluation (four_calculate_state_value grid_ops (example_net 8 65536))
        grid_ops example_board 1 = Some (7 / 2)
   \<and> evaluation (four_calculate_state_value grid_ops (example_net 8 65536))
        grid_ops example_board 2 = Some (7 / 2)
   \<and> six_take_action grid_ops (example_agent (example_net 32 16777216)) example_board
     = Some (Slide 1,
         (example_agent (example_net 32 16777216))
           \<lparr>episode_boards := [example_board[1 := 0]],
            episode_rewards := [3],
            episode_values := [0]\<rparr>)
   \<and> evaluation (six_calculate_state_value grid_ops (example_net 32 16777216))
        grid_ops example_board 1 = Some (7 / 2)
   \<and> evaluation (six_calculate_state_value grid_ops (example_net 32 16777216))
        grid_ops example_board 2 = Some (7 / 2)
   \<and> Slide 1 \<noteq> Reject"
  using greedy_choice_keeps_first_maximum
      [of grid_ops "example_agent (example_net 8 65536)" example_board "Slide 1"
          "(example_agent (example_net 8 65536))
             \<lparr>episode_boards := [example_board[1 := 0]],
              episode_rewards := [3], episode_values := [3]\<rparr>"]
    example_four_take_action example_six_take_action example_legal
    example_evaluation_four [OF nibble_grid_example]
    example_evaluation_six [OF nibble_grid_example]
  by (simp add: example_slides)

section \<open>What take_action stores\<close>

lemma example_agent_net: "net (example_agent nt) = nt"
  by (simp add: example_agent_def)

text \<open>
  C1 as stated fails. The six_tuple_agent stores the value of the afterstate converted
  to \<^verbatim>\<open>int\<close>: with value \<open>1/2\<close> it stores 0. The four_tuple_agent stores the
  reward-inclusive evaluation, converted: with value \<open>1/2\<close> and reward 3 it stores 3.
\<close>

theorem stored_value_counterexample:
  "\<not> stores_raw_value six_take_action six_calculate_state_value grid_ops
        (example_agent (example_net 32 16777216)) example_board
   \<and> \<not> stores_raw_value four_take_action four_calculate_state_value grid_ops
        (example_agent (example_net 8 65536)) example_board
   \<and> six_take_action grid_ops (example_agent (example_net 32 16777216)) example_board
     = Some (Slide 1,
         (example_agent (example_net 32 16777216))
           \<lparr>episode_boards := [example_board[1 := 0]],
            episode_rewards := [3],
            episode_values := [0]\<rparr>)
   \<and> six_calculate_state_value grid_ops (example_net 32 16777216) (example_board[1 := 0])
     = Some (1 / 2)
   \<and> four_take_action grid_ops (example_agent (example_net 8 65536)) example_board
     = Some (Slide 1,
         (example_agent (example_net 8 65536))
           \<lparr>episode_boards := [example_board[1 := 0]],
            episode_rewards := [3],
            episode_values := [3]\<rparr>)
   \<and> four_calculate_state_value grid_ops (example_net 8 65536) (example_board[1 := 0])
     = Some (1 / 2)"
  using example_six_take_action example_four_take_action example_afterstate_values
  by (simp add: stores_raw_value_def example_slides example_agent_net)

text \<open>
  C1, amended. When \<open>take_action\<close> of the six_tuple_agent accepts a move, the direction
  it returns is legal and of maximal evaluation (the \<^verbatim>\<open>double\<close> sum of value and reward),
  and the value it appends to the episode values is the value of that direction's
  afterstate, without the reward, converted to \<^verbatim>\<open>int\<close>; the board and the reward it
  appends are that afterstate and its reward.
\<close>

theorem six_stores_truncated_raw_value:
  assumes "six_take_action ops st b = Some (Slide a, st')"
  shows "\<exists>op<4. a = int op \<and> legal ops b op
           \<and> (\<exists>v. six_calculate_state_value ops (net st) (snd (slide ops b op)) = Some v
                 \<and> episode_values st' = episode_values st @ [double_to_int v]
                 \<and> episode_rewards st' = episode_rewards st @ [fst (slide ops b op)]
                 \<and> episode_boards st' = episode_boards st @ [snd (slide ops b op)]
                 \<and> (\<forall>op'<4. legal ops b op' \<longrightarrow>
                       (\<exists>e'. evaluation (six_calculate_state_value ops (net st)) ops b op'
                               = Some e'
                             \<and> e' \<le> double_plus v (real_of_int (fst (slide ops b op))))))"
proof -
  from six_take_action_cases [OF assms] obtain op e where op: "op < 4" "legal ops b op"
    and e: "evaluation (six_calculate_state_value ops (net st)) ops b op = Some e"
    and a: "a = int op"
    and st': "st' = st\<lparr>episode_boards := episode_boards st @ [snd (slide ops b op)],
                        episode_rewards := episode_rewards st @ [fst (slide ops b op)],
                        episode_values := episode_values st
                          @ [double_to_int (the (six_calculate_state_value ops (net st)
                                                   (snd (slide ops b op))))]\<rparr>"
    and mx: "\<forall>op'<4. legal ops b op' \<longrightarrow>
               (\<exists>e'. evaluation (six_calculate_state_value ops (net st)) ops b op' = Some e'
                     \<and> e' \<le> e \<and> (op' < op \<longrightarrow> e' < e))"
    by auto
  from e obtain v where v: "six_calculate_state_value ops (net st) (snd (slide ops b op)) = Some v"
    and ev: "e = double_plus v (real_of_int (fst (slide ops b op)))"
    by (auto simp: evaluation_Some)
  have "\<forall>op'<4. legal ops b op' \<longrightarrow>
          (\<exists>e'. evaluation (six_calculate_state_value ops (net st)) ops b op' = Some e'
                \<and> e' \<le> double_plus v (real_of_int (fst (slide ops b op))))"
    using mx ev by blast
  with op a v st' ev show ?thesis
    by (intro exI [of _ op] conjI exI [of _ v]) simp_all
qed

theorem six_stores_truncated_raw_value_witness:
  "six_take_action grid_ops (example_agent (example_net 32 16777216)) example_board
     = Some (Slide 1,
         (example_agent (example_net 32 16777216))
           \<lparr>episode_boards := [example_board[1 := 0]],
            episode_rewards := [3],
            episode_values := [0]\<rparr>)
   \<and> six_calculate_state_value grid_ops (example_net 32 16777216) (example_board[1 := 0])
     = Some (1 / 2)
   \<and> double_to_int (1 / 2) = 0"
  using six_stores_truncated_raw_value [OF example_six_take_action]
    example_six_take_action example_afterstate_values
  by (simp add: double_to_int_def)

lemma double_to_int_truncates:
  "(0 \<le> x \<longrightarrow> double_to_int x = \<lfloor>x\<rfloor>)
   \<and> (x < 0 \<longrightarrow> double_to_int x = \<lceil>x\<rceil>)
   \<and> \<bar>real_of_int (double_to_int x)\<bar> \<le> \<bar>x\<bar>
   \<and> \<bar>x - real_of_int (double_to_int x)\<bar> < 1"
proof (cases "x < 0")
  case True
  then have "real_of_int \<lceil>x\<rceil> \<le> 0"
    by simp
  moreover have "x \<le> real_of_int \<lceil>x\<rceil>" "real_of_int \<lceil>x\<rceil> < x + 1"
    by linarith+
  ultimately show ?thesis
    using True by (simp add: double_to_int_def; linarith?)
next
  case False
  then have "0 \<le> real_of_int \<lfloor>x\<rfloor>"
    by simp
  moreover have "real_of_int \<lfloor>x\<rfloor> \<le> x" "x < real_of_int \<lfloor>x\<rfloor> + 1"
    by linarith+
  ultimately show ?thesis
    using False by (simp add: double_to_int_def; linarith?)
qed

lemma train_step_in_range:
  assumes "i + 1 < length (episode_values st)" "i + 1 < length (episode_rewards st)"
    "i < length (episode_boards st)"
  shows "train_step update i st =
     (case update (net st) (episode_boards st ! i)
             (float_times_int (alpha st)
                (int_sub (int_add (episode_values st ! (i + 1)) (episode_rewards st ! (i + 1)))
                   (episode_values st ! i))) of
        None \<Rightarrow> None
      | Some nt \<Rightarrow> Some (st\<lparr>net := nt\<rparr>))"
  using assms by (simp add: train_step_def vec_at_def Let_def)

section \<open>The trace of an episode\<close>

lemma play_lengths:
  assumes step: "\<And>s b act s'. select s b = Some (act, s') \<Longrightarrow>
            (act = Reject \<and> s' = s)
            \<or> (act \<noteq> Reject
               \<and> length (episode_boards s') = Suc (length (episode_boards s))
               \<and> length (episode_rewards s') = Suc (length (episode_rewards s))
               \<and> length (episode_values s') = Suc (length (episode_values s)))"
    and run: "play select bs st = Some (k, st')"
  shows "length (episode_boards st') = length (episode_boards st) + k
       \<and> length (episode_rewards st') = length (episode_rewards st) + k
       \<and> length (episode_values st') = length (episode_values st) + k"
  using run
proof (induction bs arbitrary: st k)
  case Nil
  then show ?case by simp
next
  case (Cons b bs)
  from Cons.prems obtain act s1 k1 where s1: "select st b = Some (act, s1)"
    and rest: "play select bs s1 = Some (k1, st')"
    and k: "k = (if act = Reject then k1 else Suc k1)"
    by (auto split: option.splits)
  from step [OF s1] Cons.IH [OF rest] k show ?case
    by auto
qed

lemma four_take_action_grows:
  assumes "four_take_action ops s b = Some (act, s')"
  shows "(act = Reject \<and> s' = s)
       \<or> (act \<noteq> Reject
          \<and> length (episode_boards s') = Suc (length (episode_boards s))
          \<and> length (episode_rewards s') = Suc (length (episode_rewards s))
          \<and> length (episode_values s') = Suc (length (episode_values s)))"
  using four_take_action_cases [OF assms] by auto

lemma six_take_action_grows:
  assumes "six_take_action ops s b = Some (act, s')"
  shows "(act = Reject \<and> s' = s)
       \<or> (act \<noteq> Reject
          \<and> length (episode_boards s') = Suc (length (episode_boards s))
          \<and> length (episode_rewards s') = Suc (length (episode_rewards s))
          \<and> length (episode_values s') = Suc (length (episode_values s)))"
  using six_take_action_cases [OF assms] by auto

section \<open>The backward pass\<close>

lemma train_loop:
  assumes "\<forall>i\<in>set js. i + 1 < length (episode_values st)
             \<and> i + 1 < length (episode_rewards st) \<and> i < length (episode_boards st)"
  shows "for_loop (train_step update) js st =
     (case for_loop (\<lambda>i nt. update nt (episode_boards st ! i)
                (float_times_int (alpha st)
                   (int_sub (int_add (episode_values st ! (i + 1)) (episode_rewards st ! (i + 1)))
                      (episode_values st ! i)))) js (net st) of
        None \<Rightarrow> None
      | Some nt \<Rightarrow> Some (st\<lparr>net := nt\<rparr>))"
  using assms
proof (induction js arbitrary: st)
  case Nil
  then show ?case by simp
next
  case (Cons j js)
  let ?d = "float_times_int (alpha st)
              (int_sub (int_add (episode_values st ! (j + 1)) (episode_rewards st ! (j + 1)))
                 (episode_values st ! j))"
  from Cons.prems have j: "j + 1 < length (episode_values st)"
    "j + 1 < length (episode_rewards st)" "j < length (episode_boards st)"
    by simp_all
  show ?case
  proof (cases "update (net st) (episode_boards st ! j) ?d")
    case None
    then show ?thesis
      by (simp add: train_step_in_range [OF j])
  next
    case (Some n1)
    have "\<forall>i\<in>set js. i + 1 < length (episode_values (st\<lparr>net := n1\<rparr>))
             \<and> i + 1 < length (episode_rewards (st\<lparr>net := n1\<rparr>))
             \<and> i < length (episode_boards (st\<lparr>net := n1\<rparr>))"
      using Cons.prems by simp
    from Cons.IH [OF this] Some show ?thesis
      by (simp add: train_step_in_range [OF j] split: option.splits)
  qed
qed

lemma close_episode_td_backward:
  assumes v: "length (episode_values st) = length (episode_boards st)"
    and r: "length (episode_rewards st) = length (episode_boards st)"
  shows "close_episode (\<lambda>nt b d. add_entries nt (active b) d) st =
     (case td_backward active (alpha st) (episode_boards st)
             (episode_values st @ [0]) (episode_rewards st @ [0]) (net st) of
        None \<Rightarrow> None
      | Some nt \<Rightarrow>
          Some (st\<lparr>episode_rewards := episode_rewards st @ [0],
                   episode_values := episode_values st @ [0],
                   net := nt\<rparr>))"
proof -
  let ?s = "st\<lparr>episode_rewards := episode_rewards st @ [0],
                episode_values := episode_values st @ [0]\<rparr>"
  have "\<forall>i\<in>set (rev [0..<length (episode_boards st)]).
          i + 1 < length (episode_values ?s) \<and> i + 1 < length (episode_rewards ?s)
          \<and> i < length (episode_boards ?s)"
    using v r by simp
  from train_loop [OF this, of "\<lambda>nt b d. add_entries nt (active b) d"]
  show ?thesis
    by (simp add: close_episode_def td_backward_def Let_def split: option.splits)
qed

lemma close_episode_fields:
  assumes "close_episode update st = Some st'"
  shows "episode_rewards st' = episode_rewards st @ [0]
       \<and> episode_values st' = episode_values st @ [0]
       \<and> episode_boards st' = episode_boards st
       \<and> alpha st' = alpha st \<and> meta st' = meta st"
proof -
  have keep: "for_loop (train_step update) js s = Some s' \<Longrightarrow>
      episode_rewards s' = episode_rewards s \<and> episode_values s' = episode_values s
      \<and> episode_boards s' = episode_boards s \<and> alpha s' = alpha s \<and> meta s' = meta s"
    for js s s'
  proof (induction js arbitrary: s)
    case Nil
    then show ?case by simp
  next
    case (Cons j js)
    from Cons.prems obtain s1 where s1: "train_step update j s = Some s1"
      and rest: "for_loop (train_step update) js s1 = Some s'"
      by (auto split: option.splits)
    from s1 obtain nt where "s1 = s\<lparr>net := nt\<rparr>"
      by (auto simp: train_step_def Let_def split: option.splits)
    with Cons.IH [OF rest] show ?case
      by simp
  qed
  from assms keep show ?thesis
    by (fastforce simp: close_episode_def Let_def)
qed

lemma take_action_rejects:
  assumes "\<forall>op<4. fst (slide ops b op) = - 1"
  shows "four_take_action ops st b = Some (Reject, st)"
    and "six_take_action ops st b = Some (Reject, st)"
proof -
  from assms have "fst (slide ops b 0) = - 1" "fst (slide ops b 1) = - 1"
    "fst (slide ops b 2) = - 1" "fst (slide ops b 3) = - 1"
    by simp_all
  then show "four_take_action ops st b = Some (Reject, st)"
    and "six_take_action ops st b = Some (Reject, st)"
    by (simp_all add: four_take_action_def six_take_action_def opcode_def four_try_def
        six_try_def case_prod_beta)
qed

lemma backward_loop_defined:
  assumes "\<forall>i\<in>set js. \<forall>e\<in>set (active (board_seq ! i)).
             fst e < length nt \<and> address (snd e) < wsize (nt ! fst e)"
  shows "\<exists>nt'. for_loop (\<lambda>i nt. add_entries nt (active (board_seq ! i)) (f i)) js nt = Some nt'"
  using assms
proof (induction js arbitrary: nt)
  case Nil
  then show ?case by simp
next
  case (Cons j js)
  from Cons.prems have "\<forall>e\<in>set (active (board_seq ! j)).
      fst e < length nt \<and> address (snd e) < wsize (nt ! fst e)"
    by simp
  from add_entries_defined [OF this, of "f j"] obtain n1
    where n1: "add_entries nt (active (board_seq ! j)) (f j) = Some n1"
    by blast
  have "\<forall>i\<in>set js. \<forall>e\<in>set (active (board_seq ! i)).
             fst e < length n1 \<and> address (snd e) < wsize (n1 ! fst e)"
    using Cons.prems by (simp add: add_entries_length [OF n1] add_entries_wsize [OF n1])
  from Cons.IH [OF this] n1 show ?case
    by simp
qed

lemma td_backward_defined:
  assumes "\<forall>b\<in>set board_seq. \<forall>e\<in>set (active b).
             fst e < length nt \<and> address (snd e) < wsize (nt ! fst e)"
  shows "\<exists>nt'. td_backward active lr board_seq value_seq reward_seq nt = Some nt'"
  unfolding td_backward_def
  by (rule backward_loop_defined) (use assms in auto)

lemma close_episode_defined:
  assumes "length (episode_values st) = length (episode_boards st)"
    and "length (episode_rewards st) = length (episode_boards st)"
    and "\<forall>b\<in>set (episode_boards st). \<forall>e\<in>set (active b).
           fst e < length (net st) \<and> address (snd e) < wsize (net st ! fst e)"
  shows "\<exists>st'. close_episode (\<lambda>nt b d. add_entries nt (active b) d) st = Some st'"
proof -
  from td_backward_defined [OF assms(3)] obtain nt'
    where "td_backward active (alpha st) (episode_boards st)
             (episode_values st @ [0]) (episode_rewards st @ [0]) (net st) = Some nt'"
    by blast
  with close_episode_td_backward [OF assms(1,2), of active] show ?thesis
    by simp
qed

lemma four_close_episode_add_entries:
  "four_close_episode ops st = close_episode (\<lambda>nt b d. add_entries nt (four_entries ops b) d) st"
proof -
  have "four_update_net ops = (\<lambda>nt b d. add_entries nt (four_entries ops b) d)"
    by (intro ext) (rule four_update_net_entries)
  then show ?thesis
    by (simp add: four_close_episode_def)
qed

lemma six_close_episode_add_entries:
  "six_close_episode ops st = close_episode (\<lambda>nt b d. add_entries nt (six_entries ops b) d) st"
proof -
  have "six_update_net ops = (\<lambda>nt b d. add_entries nt (six_entries ops b) d)"
    by (intro ext) (rule six_update_net_entries)
  then show ?thesis
    by (simp add: six_close_episode_def)
qed

section \<open>The learning rate\<close>

lemma example_meta_alpha: "agent_meta ''alpha=0.5'' ''alpha'' = Some ''0.5''"
  by (simp add: agent_meta_def is_space_def pair_key_def pair_value_def)

lemma example_meta_other:
  "agent_meta ''alpha=0.5'' ''init'' = None" "agent_meta ''alpha=0.5'' ''load'' = None"
  by (simp_all add: agent_meta_def is_space_def pair_key_def pair_value_def)

lemma to_double_tenth: "to_double (1 / 10) = 7205759403792794 / 72057594037927936"
proof -
  have "to_double (1 / 10)
      = of_int (round_even (1 / 10 / 2 powi (- 4 - (int 53 - 1)))) * 2 powi (- 4 - (int 53 - 1))"
    unfolding to_double_def by (rule ieee_round_in_binade) (simp_all add: power_int_minus)
  also have "round_even (1 / 10 / 2 powi (- 4 - (int 53 - 1))) = 7205759403792794"
    by (simp add: round_even_def power_int_minus)
  finally show ?thesis
    by (simp add: power_int_minus)
qed

text \<open>The learning rate that \<^verbatim>\<open>alpha = 0.1/32\<close> stores: the \<^verbatim>\<open>float\<close> nearest to \<open>1/320\<close>.\<close>

lemma default_alpha_six:
  "to_float (to_double (to_double (1 / 10) / 32)) = 13421773 / 4294967296"
proof -
  have x: "to_double (1 / 10) / 32 = of_int 3602879701896397 * 2 powi (- 60)"
    by (simp add: to_double_tenth power_int_minus)
  have "to_double (of_int 3602879701896397 * 2 powi (- 60))
      = of_int 3602879701896397 * 2 powi (- 60)"
    unfolding to_double_def
    by (rule ieee_round_exact [where m = 3602879701896397 and j = "- 60"]) simp_all
  then have d: "to_double (to_double (1 / 10) / 32) = 3602879701896397 / 1152921504606846976"
    unfolding x by (simp add: power_int_minus)
  have "to_float (3602879701896397 / 1152921504606846976)
      = of_int (round_even (3602879701896397 / 1152921504606846976
                              / 2 powi (- 9 - (int 24 - 1)))) * 2 powi (- 9 - (int 24 - 1))"
    unfolding to_float_def by (rule ieee_round_in_binade) (simp_all add: power_int_minus)
  also have "round_even (3602879701896397 / 1152921504606846976 / 2 powi (- 9 - (int 24 - 1)))
      = 13421773"
    by (simp add: round_even_def power_int_minus)
  finally show ?thesis
    by (simp add: d power_int_minus)
qed

lemma to_float_half: "to_float (1 / 2) = 1 / 2"
  using to_float_quarters [of 2] by simp

lemma example_weight_agent:
  "weight_agent example_env example_fs ''alpha=0.5''
     = Inr \<lparr>meta = agent_meta ''alpha=0.5'', net = [], alpha = 1 / 2,
            episode_boards = [], episode_values = [], episode_rewards = []\<rparr>"
  by (simp add: weight_agent_def example_meta_alpha example_meta_other example_env_def
      to_float_half)

lemma alpha_kept:
  "four_take_action ops st b = Some (act, st') \<Longrightarrow> alpha st' = alpha st"
  "six_take_action ops st b = Some (act, st') \<Longrightarrow> alpha st' = alpha st"
  "close_episode update st = Some st' \<Longrightarrow> alpha st' = alpha st"
  "alpha (open_episode st) = alpha st"
proof -
  show "four_take_action ops st b = Some (act, st') \<Longrightarrow> alpha st' = alpha st"
    by (drule four_take_action_cases) auto
  show "six_take_action ops st b = Some (act, st') \<Longrightarrow> alpha st' = alpha st"
    by (drule six_take_action_cases) auto
  show "close_episode update st = Some st' \<Longrightarrow> alpha st' = alpha st"
    by (drule close_episode_fields) simp
  show "alpha (open_episode st) = alpha st"
    by (simp add: open_episode_def)
qed

text \<open>
  C3. The constructor of \<open>weight_agent\<close> takes the learning rate from the \<open>alpha\<close> key when
  there is one (the number \<^verbatim>\<open>std::stod\<close> reads, as a \<^verbatim>\<open>float\<close>), and the four_tuple_agent
  keeps it. The constructor of the six_tuple_agent then assigns \<open>0.1/32\<close>, whatever the
  configuration says: an instance built with \<open>alpha=0.5\<close> trains with the \<^verbatim>\<open>float\<close>
  nearest to \<open>1/320\<close>, which is \<open>13421773 / 2^32\<close>. The backward pass of either agent
  multiplies by the \<open>alpha\<close> of the state, which no operation changes.
\<close>

theorem six_tuple_agent_overwrites_alpha:
  "(six_tuple_agent env fs args = Inr s6 \<longrightarrow> alpha s6 = 13421773 / 4294967296)
   \<and> (four_tuple_agent env fs args = Inr s4 \<and> agent_meta args ''alpha'' = Some v \<longrightarrow>
        map_option to_float (stod env v) = Some (alpha s4))
   \<and> (weight_agent env fs args = Inr s0 \<and> agent_meta args ''alpha'' = Some v \<longrightarrow>
        map_option to_float (stod env v) = Some (alpha s0))
   \<and> (close_episode update st = Some st' \<longrightarrow> alpha st' = alpha st)"
proof (intro conjI impI)
  assume "six_tuple_agent env fs args = Inr s6"
  then show "alpha s6 = 13421773 / 4294967296"
    using default_alpha_six by (auto simp: six_tuple_agent_def split: sum.splits)
next
  assume "weight_agent env fs args = Inr s0 \<and> agent_meta args ''alpha'' = Some v"
  then show "map_option to_float (stod env v) = Some (alpha s0)"
    by (auto simp: weight_agent_def Let_def split: sum.splits option.splits)
next
  assume "four_tuple_agent env fs args = Inr s4 \<and> agent_meta args ''alpha'' = Some v"
  then show "map_option to_float (stod env v) = Some (alpha s4)"
    by (auto simp: four_tuple_agent_def weight_agent_def Let_def split: sum.splits option.splits)
next
  assume "close_episode update st = Some st'"
  then show "alpha st' = alpha st"
    by (rule alpha_kept)
qed

theorem six_tuple_agent_overwrites_alpha_witness:
  "agent_meta ''alpha=0.5'' ''alpha'' = Some ''0.5''
   \<and> stod example_env ''0.5'' = Some (1 / 2) \<and> to_float (1 / 2) = 1 / 2
   \<and> (six_tuple_agent example_env example_fs ''alpha=0.5'' :: failure + 32 word list agent)
     = Inr \<lparr>meta = agent_meta ''alpha=0.5'', net = [], alpha = 13421773 / 4294967296,
            episode_boards = [], episode_values = [], episode_rewards = []\<rparr>
   \<and> (four_tuple_agent example_env example_fs ''alpha=0.5'' :: failure + 32 word list agent)
     = Inr \<lparr>meta = agent_meta ''alpha=0.5'', net = [], alpha = 1 / 2,
            episode_boards = [], episode_values = [], episode_rewards = []\<rparr>"
proof -
  let ?s6 = "\<lparr>meta = agent_meta ''alpha=0.5'', net = [], alpha = 13421773 / 4294967296,
            episode_boards = [], episode_values = [],
            episode_rewards = []\<rparr> :: 32 word list agent"
  have six: "six_tuple_agent example_env example_fs ''alpha=0.5'' = Inr ?s6"
    using default_alpha_six by (simp add: six_tuple_agent_def example_weight_agent)
  from six_tuple_agent_overwrites_alpha [of example_env example_fs "''alpha=0.5''" ?s6] six
  have "alpha ?s6 = 13421773 / 4294967296"
    by blast
  moreover have "stod example_env ''0.5'' = Some (1 / 2)"
    by (simp add: example_env_def)
  moreover note to_float_half
  ultimately show ?thesis
    using six
    by (simp add: four_tuple_agent_def example_weight_agent example_meta_alpha)
qed

section \<open>Weight files\<close>

lemma read_shards_length: "length (fst (read_shards env ws s)) = length ws"
  by (induction ws arbitrary: s) (simp_all add: case_prod_beta Let_def)

text \<open>
  C9. A file that cannot be opened ends the process with status \<open>-1\<close>, for reading
  (\<open>load_weights\<close>) and for writing (\<open>save_weights\<close>). A file of at least four bytes that
  opens is read as a 32-bit shard count in native byte order followed by that many
  shards, each read from where the one before it left the stream; the network then has
  that many shards. A file that opens for writing receives the shard count as a 32-bit
  integer and then every shard in table order.
\<close>

theorem weight_file_framing:
  "(contents fs path = None \<longrightarrow> load_weights env fs path nt = Inl (Exit (- 1)))
   \<and> (\<not> writable fs path \<longrightarrow> save_weights env fs path nt = Inl (Exit (- 1)))
   \<and> (- 1 :: int) \<noteq> 0
   \<and> (contents fs path = Some bytes \<and> 4 \<le> length bytes \<longrightarrow>
        load_weights env fs path nt
          = Inr (fst (read_shards env
                   (resize_net nt (unat (u32_decode env (take 4 bytes)))) (drop 4 bytes)))
        \<and> length (fst (read_shards env
                   (resize_net nt (unat (u32_decode env (take 4 bytes)))) (drop 4 bytes)))
            = unat (u32_decode env (take 4 bytes)))
   \<and> read_shards env (w # ws) s
       = (fst (read_weight env s w) # fst (read_shards env ws (snd (read_weight env s w))),
          snd (read_shards env ws (snd (read_weight env s w))))
   \<and> (writable fs path \<longrightarrow>
        save_weights env fs path nt
          = Inr (fs\<lparr>contents := (contents fs)
                   (path \<mapsto> u32_encode env (of_nat (length nt))
                              @ concat (map (write_weight env) nt))\<rparr>))"
proof -
  have "length (resize_net nt n) = n" for n
    by (simp add: resize_net_def)
  then show ?thesis
    by (simp add: load_weights_def save_weights_def read_shards_length case_prod_beta Let_def)
qed

lemma example_decode: "u32_decode example_env [2, 0, 0, 0] = 2"
  by (simp add: example_env_def)

lemma example_resize: "resize_net [] 2 = [new_weight 0, new_weight 0]"
  by (simp add: resize_net_def numeral_2_eq_2)

lemma example_read:
  "read_shards example_env [new_weight 0, new_weight 0] [1, 0, 2, 0, 0]
     = ([new_weight 1, new_weight 2], [])"
  by (simp add: example_env_def)

lemma example_load:
  "load_weights example_env example_fs ''weights.bin'' [] = Inr [new_weight 1, new_weight 2]"
  by (simp add: load_weights_def example_fs_def example_decode example_resize example_read
      del: read_shards.simps)

lemma example_save:
  "save_weights example_env example_fs ''out.bin'' [new_weight 1, new_weight 2]
     = Inr (example_fs\<lparr>contents := (contents example_fs)
              (''out.bin'' \<mapsto> [2, 0, 0, 0, 1, 0, 2, 0, 0])\<rparr>)"
  by (simp add: save_weights_def example_env_def example_fs_def new_weight_def numeral_eq_Suc)

theorem weight_file_framing_witness:
  "contents example_fs ''missing.bin'' = None
   \<and> load_weights example_env example_fs ''missing.bin'' [] = Inl (Exit (- 1))
   \<and> \<not> writable example_fs ''weights.bin''
   \<and> save_weights example_env example_fs ''weights.bin'' [new_weight 1, new_weight 2]
     = Inl (Exit (- 1))
   \<and> contents example_fs ''weights.bin'' = Some [2, 0, 0, 0, 1, 0, 2, 0, 0]
   \<and> load_weights example_env example_fs ''weights.bin'' [] = Inr [new_weight 1, new_weight 2]
   \<and> writable example_fs ''out.bin''
   \<and> save_weights example_env example_fs ''out.bin'' [new_weight 1, new_weight 2]
     = Inr (example_fs\<lparr>contents := (contents example_fs)
              (''out.bin'' \<mapsto> [2, 0, 0, 0, 1, 0, 2, 0, 0])\<rparr>)"
proof -
  have m: "contents example_fs ''missing.bin'' = None"
    and w: "\<not> writable example_fs ''weights.bin''"
    and c: "contents example_fs ''weights.bin'' = Some [2, 0, 0, 0, 1, 0, 2, 0, 0]"
    and o: "writable example_fs ''out.bin''"
    by (simp_all add: example_fs_def)
  from weight_file_framing [of example_fs "''missing.bin''" example_env "[]"] m
  have "load_weights example_env example_fs ''missing.bin'' [] = Inl (Exit (- 1))"
    by blast
  moreover
  from weight_file_framing [of example_fs "''weights.bin''" example_env
      "[new_weight 1, new_weight 2]"] w
  have "save_weights example_env example_fs ''weights.bin'' [new_weight 1, new_weight 2]
      = Inl (Exit (- 1))"
    by blast
  ultimately show ?thesis
    using m w c o example_load example_save by simp
qed

section \<open>Where take_action is defined\<close>

text \<open>
  \<open>take_action\<close> returns whenever the value of the afterstate of every legal direction
  is defined, that is, whenever the tables cover the entries active for these boards.
\<close>

lemma for_loop_defined:
  assumes "\<And>x s. x \<in> set xs \<Longrightarrow> \<exists>s'. body x s = Some s'"
  shows "\<exists>s'. for_loop body xs s = Some s'"
  using assms
proof (induction xs arbitrary: s)
  case Nil
  then show ?case by simp
next
  case (Cons x xs)
  from Cons.prems [of x s] obtain s1 where s1: "body x s = Some s1"
    by auto
  from Cons.IH [of s1] Cons.prems obtain s' where "for_loop body xs s1 = Some s'"
    by auto
  with s1 show ?case
    by simp
qed

lemma four_take_action_defined:
  assumes "\<forall>op<4. legal ops b op \<longrightarrow>
             four_calculate_state_value ops (net st) (snd (slide ops b op)) \<noteq> None"
  shows "\<exists>r. four_take_action ops st b = Some r"
proof -
  have "\<exists>s'. four_try ops (net st) b op s = Some s'" if "op \<in> set opcode" for op s
  proof -
    from that have "op < 4"
      by (auto simp: opcode_def)
    with assms show ?thesis
      by (auto simp: four_try_step evaluation_def split: option.splits)
  qed
  from for_loop_defined [of opcode "four_try ops (net st) b", OF this] show ?thesis
    by (auto simp: four_take_action_def split: option.splits)
qed

lemma six_take_action_defined:
  assumes "\<forall>op<4. legal ops b op \<longrightarrow>
             six_calculate_state_value ops (net st) (snd (slide ops b op)) \<noteq> None"
  shows "\<exists>r. six_take_action ops st b = Some r"
proof -
  have "\<exists>s'. six_try ops (net st) b op s = Some s'" if "op \<in> set opcode" for op s
  proof -
    from that have "op < 4"
      by (auto simp: opcode_def)
    with assms show ?thesis
      by (auto simp: six_try_step evaluation_def split: option.splits)
  qed
  from for_loop_defined [of opcode "six_try ops (net st) b", OF this] show ?thesis
    by (auto simp: six_take_action_def split: option.splits)
qed

section \<open>What an episode records\<close>

text \<open>
  A run of \<open>take_action\<close> calls leaves the tables and the learning rate alone and appends,
  for each accepted move, the afterstate, its reward and the stored value; the value of
  every recorded afterstate was defined in these tables.
\<close>

lemma six_play_trace:
  assumes "play (six_take_action ops) bs st = Some (k, s1)"
  shows "net s1 = net st \<and> alpha s1 = alpha st
       \<and> (\<exists>as rs. length as = k \<and> length rs = k
             \<and> episode_boards s1 = episode_boards st @ as
             \<and> episode_rewards s1 = episode_rewards st @ rs
             \<and> episode_values s1 = episode_values st
                  @ map (\<lambda>a. double_to_int (the (six_calculate_state_value ops (net st) a))) as
             \<and> (\<forall>a\<in>set as. six_calculate_state_value ops (net st) a \<noteq> None))"
  using assms
proof (induction bs arbitrary: st k)
  case Nil
  then show ?case by simp
next
  case (Cons b bs)
  from Cons.prems obtain act s' k1 where s': "six_take_action ops st b = Some (act, s')"
    and rest: "play (six_take_action ops) bs s' = Some (k1, s1)"
    and k: "k = (if act = Reject then k1 else Suc k1)"
    by (auto split: option.splits)
  from Cons.IH [OF rest] obtain as rs where ih: "net s1 = net s'" "alpha s1 = alpha s'"
    "length as = k1" "length rs = k1"
    "episode_boards s1 = episode_boards s' @ as"
    "episode_rewards s1 = episode_rewards s' @ rs"
    "episode_values s1 = episode_values s'
       @ map (\<lambda>a. double_to_int (the (six_calculate_state_value ops (net s') a))) as"
    "\<forall>a\<in>set as. six_calculate_state_value ops (net s') a \<noteq> None"
    by blast
  from six_take_action_cases [OF s'] show ?case
  proof (elim disjE conjE exE)
    assume "act = Reject" "s' = st"
    with ih k show ?thesis
      by auto
  next
    fix op e
    assume op: "legal ops b op"
      and e: "evaluation (six_calculate_state_value ops (net st)) ops b op = Some e"
      and act: "act = Slide (int op)"
      and st': "s' = st\<lparr>episode_boards := episode_boards st @ [snd (slide ops b op)],
                          episode_rewards := episode_rewards st @ [fst (slide ops b op)],
                          episode_values := episode_values st
                            @ [double_to_int (the (six_calculate_state_value ops (net st)
                                  (snd (slide ops b op))))]\<rparr>"
    from e have d: "six_calculate_state_value ops (net st) (snd (slide ops b op)) \<noteq> None"
      by (auto simp: evaluation_Some)
    let ?as = "snd (slide ops b op) # as" and ?rs = "fst (slide ops b op) # rs"
    have "length ?as = k \<and> length ?rs = k
             \<and> episode_boards s1 = episode_boards st @ ?as
             \<and> episode_rewards s1 = episode_rewards st @ ?rs
             \<and> episode_values s1 = episode_values st
                  @ map (\<lambda>a. double_to_int (the (six_calculate_state_value ops (net st) a))) ?as
             \<and> (\<forall>a\<in>set ?as. six_calculate_state_value ops (net st) a \<noteq> None)"
      using ih k act d by (simp add: st')
    then show ?thesis
      using ih(1,2) by (intro conjI exI [of _ ?as] exI [of _ ?rs]) (simp_all add: st')
  qed
qed

lemma four_play_trace:
  assumes "play (four_take_action ops) bs st = Some (k, s1)"
  shows "net s1 = net st \<and> alpha s1 = alpha st
       \<and> (\<exists>as rs. length as = k \<and> length rs = k
             \<and> episode_boards s1 = episode_boards st @ as
             \<and> episode_rewards s1 = episode_rewards st @ rs
             \<and> episode_values s1 = episode_values st
                  @ map2 (\<lambda>a r. double_to_int
                       (double_plus (the (four_calculate_state_value ops (net st) a))
                          (real_of_int r))) as rs
             \<and> (\<forall>a\<in>set as. four_calculate_state_value ops (net st) a \<noteq> None))"
  using assms
proof (induction bs arbitrary: st k)
  case Nil
  then show ?case by simp
next
  case (Cons b bs)
  from Cons.prems obtain act s' k1 where s': "four_take_action ops st b = Some (act, s')"
    and rest: "play (four_take_action ops) bs s' = Some (k1, s1)"
    and k: "k = (if act = Reject then k1 else Suc k1)"
    by (auto split: option.splits)
  from Cons.IH [OF rest] obtain as rs where ih: "net s1 = net s'" "alpha s1 = alpha s'"
    "length as = k1" "length rs = k1"
    "episode_boards s1 = episode_boards s' @ as"
    "episode_rewards s1 = episode_rewards s' @ rs"
    "episode_values s1 = episode_values s'
       @ map2 (\<lambda>a r. double_to_int
            (double_plus (the (four_calculate_state_value ops (net s') a)) (real_of_int r))) as rs"
    "\<forall>a\<in>set as. four_calculate_state_value ops (net s') a \<noteq> None"
    by blast
  from four_take_action_cases [OF s'] show ?case
  proof (elim disjE conjE exE)
    assume "act = Reject" "s' = st"
    with ih k show ?thesis
      by auto
  next
    fix op e
    assume op: "legal ops b op"
      and e: "evaluation (four_calculate_state_value ops (net st)) ops b op = Some e"
      and act: "act = Slide (int op)"
      and st': "s' = st\<lparr>episode_boards := episode_boards st @ [snd (slide ops b op)],
                          episode_rewards := episode_rewards st @ [fst (slide ops b op)],
                          episode_values := episode_values st @ [double_to_int e]\<rparr>"
    from e obtain v where v: "four_calculate_state_value ops (net st) (snd (slide ops b op)) = Some v"
      and ev: "e = double_plus v (real_of_int (fst (slide ops b op)))"
      by (auto simp: evaluation_Some)
    let ?as = "snd (slide ops b op) # as" and ?rs = "fst (slide ops b op) # rs"
    have "length ?as = k \<and> length ?rs = k
             \<and> episode_boards s1 = episode_boards st @ ?as
             \<and> episode_rewards s1 = episode_rewards st @ ?rs
             \<and> episode_values s1 = episode_values st
                  @ map2 (\<lambda>a r. double_to_int
                       (double_plus (the (four_calculate_state_value ops (net st) a))
                          (real_of_int r))) ?as ?rs
             \<and> (\<forall>a\<in>set ?as. four_calculate_state_value ops (net st) a \<noteq> None)"
      using ih k act v ev by (simp add: st')
    then show ?thesis
      using ih(1,2) by (intro conjI exI [of _ ?as] exI [of _ ?rs]) (simp_all add: st')
  qed
qed

text \<open>An episode that was played can be closed: every update of the backward pass is defined.\<close>

lemma recorded_boards_in_range:
  assumes "\<forall>a\<in>set as. sum_entries nt (active a) 0 \<noteq> None"
  shows "\<forall>b\<in>set as. \<forall>e\<in>set (active b).
           fst e < length nt \<and> address (snd e) < wsize (nt ! fst e)"
proof
  fix b assume "b \<in> set as"
  with assms obtain v where "sum_entries nt (active b) 0 = Some v"
    by auto
  then show "\<forall>e\<in>set (active b). fst e < length nt \<and> address (snd e) < wsize (nt ! fst e)"
    by (rule sum_entries_Some_in_range)
qed

lemma six_played_episode_closes:
  assumes "play (six_take_action ops) bs (open_episode st) = Some (k, s1)"
  shows "length (episode_boards s1) = k \<and> length (episode_rewards s1) = k
       \<and> length (episode_values s1) = k
       \<and> (\<exists>s2. six_close_episode ops s1 = Some s2)"
proof -
  from six_play_trace [OF assms] obtain as rs where t: "net s1 = net st"
    "length as = k" "length rs = k" "episode_boards s1 = as" "episode_rewards s1 = rs"
    "length (episode_values s1) = k"
    "\<forall>a\<in>set as. six_calculate_state_value ops (net st) a \<noteq> None"
    by (auto simp: open_episode_def)
  from t(7) have "\<forall>a\<in>set as. sum_entries (net s1) (six_entries ops a) 0 \<noteq> None"
    by (simp add: six_calculate_state_value_entries t(1))
  from recorded_boards_in_range [OF this]
  have "\<exists>s2. close_episode (\<lambda>nt b d. add_entries nt (six_entries ops b) d) s1 = Some s2"
    by (intro close_episode_defined) (simp_all add: t)
  with t show ?thesis
    by (simp add: six_close_episode_add_entries)
qed

lemma four_played_episode_closes:
  assumes "play (four_take_action ops) bs (open_episode st) = Some (k, s1)"
  shows "length (episode_boards s1) = k \<and> length (episode_rewards s1) = k
       \<and> length (episode_values s1) = k
       \<and> (\<exists>s2. four_close_episode ops s1 = Some s2)"
proof -
  from four_play_trace [OF assms] obtain as rs where t: "net s1 = net st"
    "length as = k" "length rs = k" "episode_boards s1 = as" "episode_rewards s1 = rs"
    "length (episode_values s1) = k"
    "\<forall>a\<in>set as. four_calculate_state_value ops (net st) a \<noteq> None"
    by (auto simp: open_episode_def)
  from t(7) have "\<forall>a\<in>set as. sum_entries (net s1) (four_entries ops a) 0 \<noteq> None"
    by (simp add: four_calculate_state_value_entries t(1))
  from recorded_boards_in_range [OF this]
  have "\<exists>s2. close_episode (\<lambda>nt b d. add_entries nt (four_entries ops b) d) s1 = Some s2"
    by (intro close_episode_defined) (simp_all add: t)
  with t show ?thesis
    by (simp add: four_close_episode_add_entries)
qed

text \<open>
  C5. After \<open>open_episode\<close> and a run of \<open>take_action\<close> calls of which \<open>k\<close> were accepted,
  the three trace sequences have length \<open>k\<close>. \<open>close_episode\<close> then returns, and in the
  state it leaves the reward and value sequences have length \<open>k + 1\<close> and the board
  sequence still has length \<open>k\<close>. This holds for both agents.
\<close>

theorem trace_lengths:
  "(play (four_take_action ops) bs (open_episode st) = Some (k, s1) \<longrightarrow>
      length (episode_boards s1) = k \<and> length (episode_rewards s1) = k
      \<and> length (episode_values s1) = k
      \<and> (\<exists>s2. four_close_episode ops s1 = Some s2
            \<and> length (episode_rewards s2) = k + 1 \<and> length (episode_values s2) = k + 1
            \<and> length (episode_boards s2) = k))
   \<and> (play (six_take_action ops) bs (open_episode st) = Some (k, s1) \<longrightarrow>
      length (episode_boards s1) = k \<and> length (episode_rewards s1) = k
      \<and> length (episode_values s1) = k
      \<and> (\<exists>s2. six_close_episode ops s1 = Some s2
            \<and> length (episode_rewards s2) = k + 1 \<and> length (episode_values s2) = k + 1
            \<and> length (episode_boards s2) = k))"
proof (intro conjI impI)
  assume run: "play (four_take_action ops) bs (open_episode st) = Some (k, s1)"
  from four_played_episode_closes [OF run] obtain s2
    where l: "length (episode_boards s1) = k" "length (episode_rewards s1) = k"
      "length (episode_values s1) = k"
      and s2: "four_close_episode ops s1 = Some s2"
    by blast
  from l show "length (episode_boards s1) = k" "length (episode_rewards s1) = k"
    "length (episode_values s1) = k"
    by simp_all
  from s2 have "close_episode (four_update_net ops) s1 = Some s2"
    by (simp add: four_close_episode_def)
  from close_episode_fields [OF this] l s2
  show "\<exists>s2. four_close_episode ops s1 = Some s2
            \<and> length (episode_rewards s2) = k + 1 \<and> length (episode_values s2) = k + 1
            \<and> length (episode_boards s2) = k"
    by simp
next
  assume run: "play (six_take_action ops) bs (open_episode st) = Some (k, s1)"
  from six_played_episode_closes [OF run] obtain s2
    where l: "length (episode_boards s1) = k" "length (episode_rewards s1) = k"
      "length (episode_values s1) = k"
      and s2: "six_close_episode ops s1 = Some s2"
    by blast
  from l show "length (episode_boards s1) = k" "length (episode_rewards s1) = k"
    "length (episode_values s1) = k"
    by simp_all
  from s2 have "close_episode (six_update_net ops) s1 = Some s2"
    by (simp add: six_close_episode_def)
  from close_episode_fields [OF this] l s2
  show "\<exists>s2. six_close_episode ops s1 = Some s2
            \<and> length (episode_rewards s2) = k + 1 \<and> length (episode_values s2) = k + 1
            \<and> length (episode_boards s2) = k"
    by simp
qed

text \<open>
  An episode of two accepted moves on the example tables, for a state with any trace:
  on the example board direction 1 wins the tie with direction 2, on its afterstate
  direction 2 is the first legal one and the best.
\<close>

lemma grid_ops_simps: "slide grid_ops = grid_slide" "new_board grid_ops = replicate 16 0"
  by (simp_all add: grid_ops_def)

lemma double_plus_examples: "double_plus (1 / 2) 3 = 7 / 2" "double_plus (1 / 2) 1 = 3 / 2"
  using to_double_quarters [of 14] to_double_quarters [of 6] by (simp_all add: double_plus_def)

lemma example_six_moves:
  assumes "net st = example_net 32 16777216"
  shows "six_take_action grid_ops st example_board
           = Some (Slide 1,
               st\<lparr>episode_boards := episode_boards st @ [example_board[1 := 0]],
                  episode_rewards := episode_rewards st @ [3],
                  episode_values := episode_values st @ [0]\<rparr>)"
    and "six_take_action grid_ops st (example_board[1 := 0])
           = Some (Slide 2,
               st\<lparr>episode_boards := episode_boards st @ [example_board[1 := 0, 2 := 0]],
                  episode_rewards := episode_rewards st @ [3],
                  episode_values := episode_values st @ [0]\<rparr>)"
  by (simp_all add: six_take_action_def opcode_def six_try_def grid_ops_simps grid_slide_def
      example_board_def example_value_six nibble_grid_def double_plus_examples
      double_to_int_def assms)

lemma example_four_moves:
  assumes "net st = example_net 8 65536"
  shows "four_take_action grid_ops st example_board
           = Some (Slide 1,
               st\<lparr>episode_boards := episode_boards st @ [example_board[1 := 0]],
                  episode_rewards := episode_rewards st @ [3],
                  episode_values := episode_values st @ [3]\<rparr>)"
    and "four_take_action grid_ops st (example_board[1 := 0])
           = Some (Slide 2,
               st\<lparr>episode_boards := episode_boards st @ [example_board[1 := 0, 2 := 0]],
                  episode_rewards := episode_rewards st @ [3],
                  episode_values := episode_values st @ [3]\<rparr>)"
  by (simp_all add: four_take_action_def opcode_def four_try_def grid_ops_simps grid_slide_def
      example_board_def example_value_four nibble_grid_def double_plus_examples
      double_to_int_def assms)

lemma example_episode:
  "play (four_take_action grid_ops) [example_board, example_board[1 := 0], replicate 16 0]
      (open_episode (example_agent (example_net 8 65536)))
     = Some (2, (example_agent (example_net 8 65536))
           \<lparr>episode_boards := [example_board[1 := 0], example_board[1 := 0, 2 := 0]],
            episode_rewards := [3, 3],
            episode_values := [3, 3]\<rparr>)"
  "play (six_take_action grid_ops) [example_board, example_board[1 := 0], replicate 16 0]
      (open_episode (example_agent (example_net 32 16777216)))
     = Some (2, (example_agent (example_net 32 16777216))
           \<lparr>episode_boards := [example_board[1 := 0], example_board[1 := 0, 2 := 0]],
            episode_rewards := [3, 3],
            episode_values := [0, 0]\<rparr>)"
proof -
  have none: "\<forall>op<4. fst (slide grid_ops (replicate 16 0) op) = - 1"
    by (simp add: empty_grid_slides)
  let ?a4 = "example_agent (example_net 8 65536)"
  let ?f1 = "?a4\<lparr>episode_boards := [example_board[1 := 0]],
                   episode_rewards := [3], episode_values := [3]\<rparr>"
  let ?f2 = "?a4\<lparr>episode_boards := [example_board[1 := 0], example_board[1 := 0, 2 := 0]],
                   episode_rewards := [3, 3], episode_values := [3, 3]\<rparr>"
  have "open_episode ?a4 = ?a4"
    by (simp add: open_episode_def example_agent_def)
  moreover have "four_take_action grid_ops ?a4 example_board = Some (Slide 1, ?f1)"
    using example_four_moves(1) [of ?a4] by (simp add: example_agent_def)
  moreover have "four_take_action grid_ops ?f1 (example_board[1 := 0]) = Some (Slide 2, ?f2)"
    using example_four_moves(2) [of ?f1] by (simp add: example_agent_def)
  moreover note take_action_rejects(1) [OF none, of ?f2]
  ultimately show "play (four_take_action grid_ops)
      [example_board, example_board[1 := 0], replicate 16 0] (open_episode ?a4) = Some (2, ?f2)"
    by simp
  let ?a6 = "example_agent (example_net 32 16777216)"
  let ?g1 = "?a6\<lparr>episode_boards := [example_board[1 := 0]],
                   episode_rewards := [3], episode_values := [0]\<rparr>"
  let ?g2 = "?a6\<lparr>episode_boards := [example_board[1 := 0], example_board[1 := 0, 2 := 0]],
                   episode_rewards := [3, 3], episode_values := [0, 0]\<rparr>"
  have "open_episode ?a6 = ?a6"
    by (simp add: open_episode_def example_agent_def)
  moreover have "six_take_action grid_ops ?a6 example_board = Some (Slide 1, ?g1)"
    using example_six_moves(1) [of ?a6] by (simp add: example_agent_def)
  moreover have "six_take_action grid_ops ?g1 (example_board[1 := 0]) = Some (Slide 2, ?g2)"
    using example_six_moves(2) [of ?g1] by (simp add: example_agent_def)
  moreover note take_action_rejects(2) [OF none, of ?g2]
  ultimately show "play (six_take_action grid_ops)
      [example_board, example_board[1 := 0], replicate 16 0] (open_episode ?a6) = Some (2, ?g2)"
    by simp
qed

theorem trace_lengths_witness:
  "play (four_take_action grid_ops) [example_board, example_board[1 := 0], replicate 16 0]
      (open_episode (example_agent (example_net 8 65536)))
     = Some (2, (example_agent (example_net 8 65536))
           \<lparr>episode_boards := [example_board[1 := 0], example_board[1 := 0, 2 := 0]],
            episode_rewards := [3, 3],
            episode_values := [3, 3]\<rparr>)
   \<and> four_close_episode grid_ops
        ((example_agent (example_net 8 65536))
           \<lparr>episode_boards := [example_board[1 := 0], example_board[1 := 0, 2 := 0]],
            episode_rewards := [3, 3],
            episode_values := [3, 3]\<rparr>) \<noteq> None
   \<and> length (episode_rewards (the (four_close_episode grid_ops
        ((example_agent (example_net 8 65536))
           \<lparr>episode_boards := [example_board[1 := 0], example_board[1 := 0, 2 := 0]],
            episode_rewards := [3, 3],
            episode_values := [3, 3]\<rparr>)))) = 3
   \<and> length (episode_values (the (four_close_episode grid_ops
        ((example_agent (example_net 8 65536))
           \<lparr>episode_boards := [example_board[1 := 0], example_board[1 := 0, 2 := 0]],
            episode_rewards := [3, 3],
            episode_values := [3, 3]\<rparr>)))) = 3
   \<and> length (episode_boards (the (four_close_episode grid_ops
        ((example_agent (example_net 8 65536))
           \<lparr>episode_boards := [example_board[1 := 0], example_board[1 := 0, 2 := 0]],
            episode_rewards := [3, 3],
            episode_values := [3, 3]\<rparr>)))) = 2
   \<and> play (six_take_action grid_ops) [example_board, example_board[1 := 0], replicate 16 0]
      (open_episode (example_agent (example_net 32 16777216)))
     = Some (2, (example_agent (example_net 32 16777216))
           \<lparr>episode_boards := [example_board[1 := 0], example_board[1 := 0, 2 := 0]],
            episode_rewards := [3, 3],
            episode_values := [0, 0]\<rparr>)
   \<and> six_close_episode grid_ops
        ((example_agent (example_net 32 16777216))
           \<lparr>episode_boards := [example_board[1 := 0], example_board[1 := 0, 2 := 0]],
            episode_rewards := [3, 3],
            episode_values := [0, 0]\<rparr>) \<noteq> None
   \<and> length (episode_rewards (the (six_close_episode grid_ops
        ((example_agent (example_net 32 16777216))
           \<lparr>episode_boards := [example_board[1 := 0], example_board[1 := 0, 2 := 0]],
            episode_rewards := [3, 3],
            episode_values := [0, 0]\<rparr>)))) = 3
   \<and> length (episode_values (the (six_close_episode grid_ops
        ((example_agent (example_net 32 16777216))
           \<lparr>episode_boards := [example_board[1 := 0], example_board[1 := 0, 2 := 0]],
            episode_rewards := [3, 3],
            episode_values := [0, 0]\<rparr>)))) = 3
   \<and> length (episode_boards (the (six_close_episode grid_ops
        ((example_agent (example_net 32 16777216))
           \<lparr>episode_boards := [example_board[1 := 0], example_board[1 := 0, 2 := 0]],
            episode_rewards := [3, 3],
            episode_values := [0, 0]\<rparr>)))) = 2"
proof -
  let ?a4 = "example_agent (example_net 8 65536)"
  let ?s4 = "?a4\<lparr>episode_boards := [example_board[1 := 0], example_board[1 := 0, 2 := 0]],
            episode_rewards := [3, 3], episode_values := [3, 3]\<rparr>"
  let ?a6 = "example_agent (example_net 32 16777216)"
  let ?s6 = "?a6\<lparr>episode_boards := [example_board[1 := 0], example_board[1 := 0, 2 := 0]],
            episode_rewards := [3, 3], episode_values := [0, 0]\<rparr>"
  let ?bs = "[example_board, example_board[1 := 0], replicate 16 0]"
  note t4 = trace_lengths [of grid_ops ?bs ?a4 2 ?s4, THEN conjunct1, THEN mp,
      OF example_episode(1)]
  note t6 = trace_lengths [of grid_ops ?bs ?a6 2 ?s6, THEN conjunct2, THEN mp,
      OF example_episode(2)]
  from t4 obtain c4 where c4: "four_close_episode grid_ops ?s4 = Some c4"
    "length (episode_rewards c4) = 3" "length (episode_values c4) = 3"
    "length (episode_boards c4) = 2"
    by auto
  from t6 obtain c6 where c6: "six_close_episode grid_ops ?s6 = Some c6"
    "length (episode_rewards c6) = 3" "length (episode_values c6) = 3"
    "length (episode_boards c6) = 2"
    by auto
  show ?thesis
    using example_episode c4 c6 by (simp del: play.simps)
qed

section \<open>The amounts of the backward pass\<close>

lemma int_sub_add_small:
  assumes "- (2 ^ 31) \<le> v1 + r1" "v1 + r1 < 2 ^ 31"
    and "- (2 ^ 31) \<le> v1 + r1 - v0" "v1 + r1 - v0 < 2 ^ 31"
  shows "int_sub (int_add v1 r1) v0 = v1 + r1 - v0"
  using assms by (simp add: int_sub_def int_add_def int32_small)

lemma float_times_int_exact:
  assumes "\<bar>n\<bar> < 2 ^ 24" and "to_float (a * real_of_int n) = a * real_of_int n"
  shows "float_times_int a n = a * real_of_int n"
  using assms by (simp add: float_times_int_def to_float_of_int)

lemma int_overflow_example: "int_add 2147483647 1 = - 2147483648"
  by (simp add: int_add_def int32_def)

text \<open>
  C2. With the three trace sequences of equal length \<open>n\<close>, \<open>close_episode\<close> appends the
  terminal reward 0 and value 0 and leaves the network that results from adding, for
  \<open>i\<close> from \<open>n-1\<close> down to 0, the amount
  \<open>alpha * (value_seq[i+1] + reward_seq[i+1] - value_seq[i])\<close> to every entry active for
  \<open>board_seq[i]\<close>, the sequences being the recorded ones with the 0 appended: no step
  reads anything an earlier step wrote, and position \<open>n\<close> itself gets no update. It is
  undefined exactly where one of these additions is. This holds for both agents. The
  amount is computed on \<^verbatim>\<open>int\<close> and \<^verbatim>\<open>float\<close>: it is the integer \<open>v1 + r1 - v0\<close> times
  \<open>alpha\<close> where neither the sum nor the difference leaves the range of \<^verbatim>\<open>int\<close>, the
  integer is below \<open>2^24\<close> in magnitude and the product is a \<^verbatim>\<open>float\<close>.
\<close>

theorem close_episode_is_backward_td:
  assumes "length (episode_values st) = length (episode_boards st)"
    and "length (episode_rewards st) = length (episode_boards st)"
  shows "four_close_episode ops st =
     (case td_backward (four_entries ops) (alpha st) (episode_boards st)
             (episode_values st @ [0]) (episode_rewards st @ [0]) (net st) of
        None \<Rightarrow> None
      | Some nt \<Rightarrow>
          Some (st\<lparr>episode_rewards := episode_rewards st @ [0],
                   episode_values := episode_values st @ [0],
                   net := nt\<rparr>))
   \<and> six_close_episode ops st =
     (case td_backward (six_entries ops) (alpha st) (episode_boards st)
             (episode_values st @ [0]) (episode_rewards st @ [0]) (net st) of
        None \<Rightarrow> None
      | Some nt \<Rightarrow>
          Some (st\<lparr>episode_rewards := episode_rewards st @ [0],
                   episode_values := episode_values st @ [0],
                   net := nt\<rparr>))
   \<and> (- (2 ^ 31) \<le> v1 + r1 \<and> v1 + r1 < 2 ^ 31
        \<and> - (2 ^ 31) \<le> v1 + r1 - v0 \<and> v1 + r1 - v0 < 2 ^ 31 \<longrightarrow>
        int_sub (int_add v1 r1) v0 = v1 + r1 - v0)
   \<and> (\<bar>n\<bar> < 2 ^ 24 \<and> to_float (a * real_of_int n) = a * real_of_int n \<longrightarrow>
        float_times_int a n = a * real_of_int n)"
proof -
  have "four_update_net ops = (\<lambda>nt b d. add_entries nt (four_entries ops b) d)"
    by (intro ext) (rule four_update_net_entries)
  moreover have "six_update_net ops = (\<lambda>nt b d. add_entries nt (six_entries ops b) d)"
    by (intro ext) (rule six_update_net_entries)
  ultimately show ?thesis
    using close_episode_td_backward [OF assms, of "four_entries ops"]
      close_episode_td_backward [OF assms, of "six_entries ops"]
      int_sub_add_small [of v1 r1 v0] float_times_int_exact [of n a]
    by (simp add: four_close_episode_def six_close_episode_def)
qed

text \<open>
  An episode of two positions whose boards share the entry of shard 0, in tables where
  that entry is \<open>2^24\<close>: position 1 adds 1, which the \<^verbatim>\<open>float\<close> entry does not take, and
  position 0 then subtracts 1, leaving \<open>2^24 - 1\<close>. In the other order the entry would
  end at \<open>2^24\<close>.
\<close>

lemma td_backward_two:
  "td_backward active lr [b0, b1] [v0, v1, v2] [r0, r1, r2] nt =
     (case add_entries nt (active b1) (float_times_int lr (int_sub (int_add v2 r2) v1)) of
        None \<Rightarrow> None
      | Some n1 \<Rightarrow>
          add_entries n1 (active b0) (float_times_int lr (int_sub (int_add v1 r1) v0)))"
  by (simp add: td_backward_def split: option.splits)

lemma amount_examples:
  "float_times_int (1 / 2) (int_sub (int_add 0 0) (- 2)) = 1"
  "float_times_int (1 / 2) (int_sub (int_add (- 2) 3) 3) = - 1"
proof -
  have "int_sub (int_add 0 0) (- 2) = 2" "int_sub (int_add (- 2) 3) 3 = - 2"
    using int_sub_add_small [of 0 0 "- 2"] int_sub_add_small [of "- 2" 3 3] by simp_all
  moreover have "float_times_int (1 / 2) 2 = 1" "float_times_int (1 / 2) (- 2) = - 1"
    using to_float_of_int [of 2] to_float_of_int [of 1] to_float_of_int [of "- 2"]
      to_float_of_int [of "- 1"]
    by (simp_all add: float_times_int_def)
  ultimately show "float_times_int (1 / 2) (int_sub (int_add 0 0) (- 2)) = 1"
    "float_times_int (1 / 2) (int_sub (int_add (- 2) 3) 3) = - 1"
    by simp_all
qed

lemma to_float_2_24: "to_float 16777216 = 16777216"
  unfolding to_float_def by (rule ieee_round_exact [where m = 8388608 and j = 1]) simp_all

lemma float_plus_assign_down: "float_plus_assign 16777216 (- 1) = 16777215"
  "float_plus_assign 16777215 1 = 16777216"
  using to_double_of_int [of 16777215] to_float_of_int [of 16777215]
    to_double_of_int [of 16777216] to_float_2_24
  by (simp_all add: float_plus_assign_def double_plus_def)

lemma two_updates:
  assumes d1: "distinct (map fst es1)" and d0: "distinct (map fst es0)"
    and r1: "\<forall>e\<in>set es1. fst e < length nt \<and> address (snd e) < wsize (nt ! fst e)"
    and r0: "\<forall>e\<in>set es0. fst e < length nt \<and> address (snd e) < wsize (nt ! fst e)"
    and m1: "(s, i) \<in> set es1" and m0: "(s, i) \<in> set es0"
  shows "\<exists>n1 n2. add_entries nt es1 x = Some n1 \<and> add_entries n1 es0 y = Some n2
           \<and> net_at n2 s i
               = Some (float_plus_assign (float_plus_assign (wvalue (nt ! s) (address i)) x) y)"
proof -
  from add_entries_defined [OF r1, of x] obtain n1 where n1: "add_entries nt es1 x = Some n1"
    by blast
  have "\<forall>e\<in>set es0. fst e < length n1 \<and> address (snd e) < wsize (n1 ! fst e)"
    using r0 by (simp add: add_entries_length [OF n1] add_entries_wsize [OF n1])
  from add_entries_defined [OF this, of y] obtain n2 where n2: "add_entries n1 es0 y = Some n2"
    by blast
  from add_entries_values [OF d1 n1 m1]
  have "wvalue (n1 ! s) (address i) = float_plus_assign (wvalue (nt ! s) (address i)) x"
    by (simp add: net_at_Some)
  with add_entries_values [OF d0 n2 m0] n1 n2 show ?thesis
    by simp
qed

lemma first_entry_member:
  "(0, four_row_index ops b 0) \<in> set (four_entries ops b)"
  "(0, six_index ops b 0) \<in> set (six_entries ops b)"
  by (simp_all add: four_entries_def six_entries_def variants_def Let_def)

lemma upt_6: "[0..<6] = [0, 1, 2, 3, 4, 5]"
  by (simp add: upt_rec)

lemma shared_first_entry:
  "four_row_index grid_ops (example_board[15 := 0]) 0 = four_row_index grid_ops example_board 0"
  "six_index grid_ops (example_board[15 := 0]) 0 = six_index grid_ops example_board 0"
  by (simp_all add: four_row_index_def six_index_def upt_6 tuple_index_def grid_ops_def
      example_board_def)

lemma heavy_entries_in_range:
  assumes "nibble_grid b"
  shows "\<forall>e\<in>set (four_entries grid_ops b).
          fst e < length (heavy_net 8 65536)
          \<and> address (snd e) < wsize (heavy_net 8 65536 ! fst e)"
    and "\<forall>e\<in>set (six_entries grid_ops b).
          fst e < length (heavy_net 32 16777216)
          \<and> address (snd e) < wsize (heavy_net 32 16777216 ! fst e)"
  unfolding heavy_net_def by (rule constant_entries_in_range [OF assms])+

lemma heavy_two_updates:
  "\<exists>n1 n2. add_entries (heavy_net 8 65536) (four_entries grid_ops example_board) 1 = Some n1
      \<and> add_entries n1 (four_entries grid_ops (example_board[15 := 0])) (- 1) = Some n2
      \<and> net_at n2 0 (four_row_index grid_ops example_board 0) = Some 16777215"
  "\<exists>n1 n2. add_entries (heavy_net 8 65536) (four_entries grid_ops (example_board[15 := 0])) (- 1)
        = Some n1
      \<and> add_entries n1 (four_entries grid_ops example_board) 1 = Some n2
      \<and> net_at n2 0 (four_row_index grid_ops example_board 0) = Some 16777216"
  "\<exists>n1 n2. add_entries (heavy_net 32 16777216) (six_entries grid_ops example_board) 1 = Some n1
      \<and> add_entries n1 (six_entries grid_ops (example_board[15 := 0])) (- 1) = Some n2
      \<and> net_at n2 0 (six_index grid_ops example_board 0) = Some 16777215"
  "\<exists>n1 n2. add_entries (heavy_net 32 16777216) (six_entries grid_ops (example_board[15 := 0])) (- 1)
        = Some n1
      \<and> add_entries n1 (six_entries grid_ops example_board) 1 = Some n2
      \<and> net_at n2 0 (six_index grid_ops example_board 0) = Some 16777216"
proof -
  note g1 = nibble_grid_example
  note g0 = nibble_grid_update [OF nibble_grid_example, of 15]
  have m4: "(0, four_row_index grid_ops example_board 0)
      \<in> set (four_entries grid_ops (example_board[15 := 0]))"
    using first_entry_member(1) [of grid_ops "example_board[15 := 0]"]
    by (simp add: shared_first_entry)
  have m6: "(0, six_index grid_ops example_board 0)
      \<in> set (six_entries grid_ops (example_board[15 := 0]))"
    using first_entry_member(2) [of grid_ops "example_board[15 := 0]"]
    by (simp add: shared_first_entry)
  show "\<exists>n1 n2. add_entries (heavy_net 8 65536) (four_entries grid_ops example_board) 1 = Some n1
      \<and> add_entries n1 (four_entries grid_ops (example_board[15 := 0])) (- 1) = Some n2
      \<and> net_at n2 0 (four_row_index grid_ops example_board 0) = Some 16777215"
    using two_updates [OF four_entries_distinct four_entries_distinct
        heavy_entries_in_range(1) [OF g1] heavy_entries_in_range(1) [OF g0]
        first_entry_member(1) m4, of 1 "- 1"]
    by (simp add: heavy_net_shape float_plus_assign_examples float_plus_assign_down)
  show "\<exists>n1 n2. add_entries (heavy_net 8 65536) (four_entries grid_ops (example_board[15 := 0])) (- 1)
        = Some n1
      \<and> add_entries n1 (four_entries grid_ops example_board) 1 = Some n2
      \<and> net_at n2 0 (four_row_index grid_ops example_board 0) = Some 16777216"
    using two_updates [OF four_entries_distinct four_entries_distinct
        heavy_entries_in_range(1) [OF g0] heavy_entries_in_range(1) [OF g1]
        m4 first_entry_member(1), of "- 1" 1]
    by (simp add: heavy_net_shape float_plus_assign_examples float_plus_assign_down)
  show "\<exists>n1 n2. add_entries (heavy_net 32 16777216) (six_entries grid_ops example_board) 1 = Some n1
      \<and> add_entries n1 (six_entries grid_ops (example_board[15 := 0])) (- 1) = Some n2
      \<and> net_at n2 0 (six_index grid_ops example_board 0) = Some 16777215"
    using two_updates [OF six_entries_distinct six_entries_distinct
        heavy_entries_in_range(2) [OF g1] heavy_entries_in_range(2) [OF g0]
        first_entry_member(2) m6, of 1 "- 1"]
    by (simp add: heavy_net_shape float_plus_assign_examples float_plus_assign_down)
  show "\<exists>n1 n2. add_entries (heavy_net 32 16777216) (six_entries grid_ops (example_board[15 := 0])) (- 1)
        = Some n1
      \<and> add_entries n1 (six_entries grid_ops example_board) 1 = Some n2
      \<and> net_at n2 0 (six_index grid_ops example_board 0) = Some 16777216"
    using two_updates [OF six_entries_distinct six_entries_distinct
        heavy_entries_in_range(2) [OF g0] heavy_entries_in_range(2) [OF g1]
        m6 first_entry_member(2), of "- 1" 1]
    by (simp add: heavy_net_shape float_plus_assign_examples float_plus_assign_down)
qed

theorem close_episode_is_backward_td_witness:
  "four_close_episode grid_ops
      ((example_agent (heavy_net 8 65536))
         \<lparr>episode_boards := [example_board[15 := 0], example_board],
          episode_rewards := [1, 3], episode_values := [3, - 2]\<rparr>)
     = Some ((example_agent (heavy_net 8 65536))
         \<lparr>episode_boards := [example_board[15 := 0], example_board],
          episode_rewards := [1, 3, 0], episode_values := [3, - 2, 0],
          net := the (add_entries
                   (the (add_entries (heavy_net 8 65536)
                           (four_entries grid_ops example_board) 1))
                   (four_entries grid_ops (example_board[15 := 0])) (- 1))\<rparr>)
   \<and> add_entries (heavy_net 8 65536) (four_entries grid_ops example_board) 1 \<noteq> None
   \<and> net_at (the (add_entries
                (the (add_entries (heavy_net 8 65536)
                        (four_entries grid_ops example_board) 1))
                (four_entries grid_ops (example_board[15 := 0])) (- 1)))
        0 (four_row_index grid_ops example_board 0) = Some 16777215
   \<and> net_at (the (add_entries
                (the (add_entries (heavy_net 8 65536)
                        (four_entries grid_ops (example_board[15 := 0])) (- 1)))
                (four_entries grid_ops example_board) 1))
        0 (four_row_index grid_ops example_board 0) = Some 16777216
   \<and> six_close_episode grid_ops
      ((example_agent (heavy_net 32 16777216))
         \<lparr>episode_boards := [example_board[15 := 0], example_board],
          episode_rewards := [1, 3], episode_values := [3, - 2]\<rparr>)
     = Some ((example_agent (heavy_net 32 16777216))
         \<lparr>episode_boards := [example_board[15 := 0], example_board],
          episode_rewards := [1, 3, 0], episode_values := [3, - 2, 0],
          net := the (add_entries
                   (the (add_entries (heavy_net 32 16777216)
                           (six_entries grid_ops example_board) 1))
                   (six_entries grid_ops (example_board[15 := 0])) (- 1))\<rparr>)
   \<and> add_entries (heavy_net 32 16777216) (six_entries grid_ops example_board) 1 \<noteq> None
   \<and> net_at (the (add_entries
                (the (add_entries (heavy_net 32 16777216)
                        (six_entries grid_ops example_board) 1))
                (six_entries grid_ops (example_board[15 := 0])) (- 1)))
        0 (six_index grid_ops example_board 0) = Some 16777215
   \<and> net_at (the (add_entries
                (the (add_entries (heavy_net 32 16777216)
                        (six_entries grid_ops (example_board[15 := 0])) (- 1)))
                (six_entries grid_ops example_board) 1))
        0 (six_index grid_ops example_board 0) = Some 16777216
   \<and> int_sub (int_add (- 2) 3) 3 = - 2
   \<and> float_times_int (1 / 2) (- 2) = - 1"
proof -
  let ?s4 = "(example_agent (heavy_net 8 65536))
         \<lparr>episode_boards := [example_board[15 := 0], example_board],
          episode_rewards := [1, 3], episode_values := [3, - 2]\<rparr>"
  let ?s6 = "(example_agent (heavy_net 32 16777216))
         \<lparr>episode_boards := [example_board[15 := 0], example_board],
          episode_rewards := [1, 3], episode_values := [3, - 2]\<rparr>"
  have l4: "length (episode_values ?s4) = length (episode_boards ?s4)"
    "length (episode_rewards ?s4) = length (episode_boards ?s4)"
    by simp_all
  have l6: "length (episode_values ?s6) = length (episode_boards ?s6)"
    "length (episode_rewards ?s6) = length (episode_boards ?s6)"
    by simp_all
  from heavy_two_updates(1) obtain a1 a2
    where a: "add_entries (heavy_net 8 65536) (four_entries grid_ops example_board) 1 = Some a1"
      "add_entries a1 (four_entries grid_ops (example_board[15 := 0])) (- 1) = Some a2"
      "net_at a2 0 (four_row_index grid_ops example_board 0) = Some 16777215"
    by blast
  from heavy_two_updates(2) obtain b1 b2
    where b: "add_entries (heavy_net 8 65536) (four_entries grid_ops (example_board[15 := 0])) (- 1)
        = Some b1"
      "add_entries b1 (four_entries grid_ops example_board) 1 = Some b2"
      "net_at b2 0 (four_row_index grid_ops example_board 0) = Some 16777216"
    by blast
  from heavy_two_updates(3) obtain c1 c2
    where c: "add_entries (heavy_net 32 16777216) (six_entries grid_ops example_board) 1 = Some c1"
      "add_entries c1 (six_entries grid_ops (example_board[15 := 0])) (- 1) = Some c2"
      "net_at c2 0 (six_index grid_ops example_board 0) = Some 16777215"
    by blast
  from heavy_two_updates(4) obtain d1 d2
    where d: "add_entries (heavy_net 32 16777216) (six_entries grid_ops (example_board[15 := 0])) (- 1)
        = Some d1"
      "add_entries d1 (six_entries grid_ops example_board) 1 = Some d2"
      "net_at d2 0 (six_index grid_ops example_board 0) = Some 16777216"
    by blast
  note t4 = close_episode_is_backward_td [OF l4, of grid_ops "- 2" 3 3 "- 2" "1 / 2"]
  note t6 = close_episode_is_backward_td [OF l6, of grid_ops "- 2" 3 3 "- 2" "1 / 2"]
  have f4: "four_close_episode grid_ops ?s4
      = Some (?s4\<lparr>episode_rewards := [1, 3, 0], episode_values := [3, - 2, 0], net := a2\<rparr>)"
    using t4 a(1,2) by (simp add: td_backward_two amount_examples example_agent_def)
  have f6: "six_close_episode grid_ops ?s6
      = Some (?s6\<lparr>episode_rewards := [1, 3, 0], episode_values := [3, - 2, 0], net := c2\<rparr>)"
    using t6 c(1,2) by (simp add: td_backward_two amount_examples example_agent_def)
  have m: "int_sub (int_add (- 2) 3) 3 = - 2"
    using t4 by simp
  have "to_float (- 1) = - 1"
    using to_float_of_int [of "- 1"] by simp
  with t4 have p: "float_times_int (1 / 2) (- 2) = - 1"
    by simp
  show ?thesis
    using f4 f6 a b c d m p by (simp add: example_agent_def)
qed

section \<open>The values the backward pass bootstraps on\<close>

lemma six_episode_values:
  assumes "play (six_take_action ops) bs (open_episode st) = Some (k, s1)"
  shows "episode_values s1
           = map (\<lambda>a. double_to_int (the (six_calculate_state_value ops (net st) a)))
               (episode_boards s1)"
    and "net s1 = net st" and "alpha s1 = alpha st"
    and "length (episode_values s1) = length (episode_boards s1)"
    and "length (episode_rewards s1) = length (episode_boards s1)"
  using six_play_trace [OF assms] by (auto simp: open_episode_def)

lemma four_episode_values:
  assumes "play (four_take_action ops) bs (open_episode st) = Some (k, s1)"
  shows "episode_values s1
           = map2 (\<lambda>a r. double_to_int
                (double_plus (the (four_calculate_state_value ops (net st) a)) (real_of_int r)))
               (episode_boards s1) (episode_rewards s1)"
    and "net s1 = net st" and "alpha s1 = alpha st"
    and "length (episode_values s1) = length (episode_boards s1)"
    and "length (episode_rewards s1) = length (episode_boards s1)"
  using four_play_trace [OF assms] by (auto simp: open_episode_def)

lemma six_close_played:
  assumes run: "play (six_take_action ops) bs (open_episode st) = Some (k, s1)"
  shows "six_close_episode ops s1 =
     (case td_backward (six_entries ops) (alpha st) (episode_boards s1)
             (map (\<lambda>a. double_to_int (the (six_calculate_state_value ops (net st) a)))
                (episode_boards s1) @ [0])
             (episode_rewards s1 @ [0]) (net st) of
        None \<Rightarrow> None
      | Some nt \<Rightarrow>
          Some (s1\<lparr>episode_rewards := episode_rewards s1 @ [0],
                   episode_values := episode_values s1 @ [0],
                   net := nt\<rparr>))"
  using close_episode_td_backward [OF six_episode_values(4,5) [OF run], of "six_entries ops"]
    six_episode_values(1,2,3) [OF run]
  by (simp add: six_close_episode_add_entries)

lemma four_close_played:
  assumes run: "play (four_take_action ops) bs (open_episode st) = Some (k, s1)"
  shows "four_close_episode ops s1 =
     (case td_backward (four_entries ops) (alpha st) (episode_boards s1)
             (map2 (\<lambda>a r. double_to_int
                  (double_plus (the (four_calculate_state_value ops (net st) a))
                     (real_of_int r)))
                (episode_boards s1) (episode_rewards s1) @ [0])
             (episode_rewards s1 @ [0]) (net st) of
        None \<Rightarrow> None
      | Some nt \<Rightarrow>
          Some (s1\<lparr>episode_rewards := episode_rewards s1 @ [0],
                   episode_values := episode_values s1 @ [0],
                   net := nt\<rparr>))"
  using close_episode_td_backward [OF four_episode_values(4,5) [OF run], of "four_entries ops"]
    four_episode_values(1,2,3) [OF run]
  by (simp add: four_close_episode_add_entries)

text \<open>
  C10. The episode values are \<^verbatim>\<open>int\<close>s, and the conversion of a \<^verbatim>\<open>double\<close> to \<^verbatim>\<open>int\<close>
  rounds toward zero. In an episode played by the six_tuple_agent the value recorded
  for a move is the value of its afterstate, converted, and \<open>close_episode\<close> is the
  backward pass over these integers. In an episode played by the four_tuple_agent the
  value recorded for a move is the sum of the value of its afterstate and its reward,
  converted, and \<open>close_episode\<close> is the backward pass over those integers: there the
  pass does not bootstrap on the truncated afterstate values. Either pass is defined.
\<close>

theorem episode_values_are_truncated:
  "(play (six_take_action ops) bs (open_episode st) = Some (k, s1) \<longrightarrow>
      episode_values s1
        = map (\<lambda>a. double_to_int (the (six_calculate_state_value ops (net st) a)))
            (episode_boards s1)
      \<and> six_close_episode ops s1 =
         (case td_backward (six_entries ops) (alpha st) (episode_boards s1)
                 (map (\<lambda>a. double_to_int (the (six_calculate_state_value ops (net st) a)))
                    (episode_boards s1) @ [0])
                 (episode_rewards s1 @ [0]) (net st) of
            None \<Rightarrow> None
          | Some nt \<Rightarrow>
              Some (s1\<lparr>episode_rewards := episode_rewards s1 @ [0],
                       episode_values := episode_values s1 @ [0],
                       net := nt\<rparr>))
      \<and> six_close_episode ops s1 \<noteq> None)
   \<and> (play (four_take_action ops) bs (open_episode st) = Some (k, s1) \<longrightarrow>
      episode_values s1
        = map2 (\<lambda>a r. double_to_int
             (double_plus (the (four_calculate_state_value ops (net st) a)) (real_of_int r)))
            (episode_boards s1) (episode_rewards s1)
      \<and> four_close_episode ops s1 =
         (case td_backward (four_entries ops) (alpha st) (episode_boards s1)
                 (map2 (\<lambda>a r. double_to_int
                      (double_plus (the (four_calculate_state_value ops (net st) a))
                         (real_of_int r)))
                    (episode_boards s1) (episode_rewards s1) @ [0])
                 (episode_rewards s1 @ [0]) (net st) of
            None \<Rightarrow> None
          | Some nt \<Rightarrow>
              Some (s1\<lparr>episode_rewards := episode_rewards s1 @ [0],
                       episode_values := episode_values s1 @ [0],
                       net := nt\<rparr>))
      \<and> four_close_episode ops s1 \<noteq> None)
   \<and> (0 \<le> x \<longrightarrow> double_to_int x = \<lfloor>x\<rfloor>)
   \<and> (x < 0 \<longrightarrow> double_to_int x = \<lceil>x\<rceil>)
   \<and> \<bar>real_of_int (double_to_int x)\<bar> \<le> \<bar>x\<bar>
   \<and> \<bar>x - real_of_int (double_to_int x)\<bar> < 1"
proof -
  have six: "six_close_episode ops s1 \<noteq> None"
    if "play (six_take_action ops) bs (open_episode st) = Some (k, s1)"
    using six_played_episode_closes [OF that] by auto
  have four: "four_close_episode ops s1 \<noteq> None"
    if "play (four_take_action ops) bs (open_episode st) = Some (k, s1)"
    using four_played_episode_closes [OF that] by auto
  show ?thesis
    using six four six_episode_values(1) [of ops bs st k s1] six_close_played [of ops bs st k s1]
      four_episode_values(1) [of ops bs st k s1] four_close_played [of ops bs st k s1]
      double_to_int_truncates [of x]
    by blast
qed

lemma first_entry_unique:
  "(0, i) \<in> set (four_entries ops b) \<Longrightarrow> i = four_row_index ops b 0"
  "(0, i) \<in> set (six_entries ops b) \<Longrightarrow> i = six_index ops b 0"
  by (simp_all add: four_entries_def six_entries_def variants_def Let_def)

lemma first_addresses:
  assumes "nibble_grid b"
  shows "address (four_row_index grid_ops b 0)
           = unat (b ! 0) + unat (b ! 1) * 16 + unat (b ! 2) * 256 + unat (b ! 3) * 4096"
    and "address (six_index grid_ops b 0)
           = unat (b ! 0) + unat (b ! 1) * 16 + unat (b ! 2) * 256 + unat (b ! 3) * 4096
             + unat (b ! 4) * 65536 + unat (b ! 5) * 1048576"
proof -
  note cells = nibble_grid_cells [OF assms]
  have row: "unat (cell_at grid_ops b (4 * 0 + j)) < 16" if "j < 4" for j
    using cells that by simp
  have "address (four_row_index grid_ops b 0)
      = unat (cell_at grid_ops b 0) + unat (cell_at grid_ops b 1) * 16
        + unat (cell_at grid_ops b 2) * 256 + unat (cell_at grid_ops b 3) * 4096"
    using net_index_sum(1) [OF row [of 0] row [of 1] row [of 2] row [of 3]]
    by (simp add: four_row_index_def Let_def numeral_2_eq_2 [symmetric])
  then show "address (four_row_index grid_ops b 0)
           = unat (b ! 0) + unat (b ! 1) * 16 + unat (b ! 2) * 256 + unat (b ! 3) * 4096"
    by (simp add: grid_ops_def)
  have "\<forall>j<6. unat (cell_at grid_ops b (tuple_index ! 0 ! j)) < 16"
    using cells tuple_index_positions [of 0] by simp
  from six_index_sum(1) [OF this]
  show "address (six_index grid_ops b 0)
           = unat (b ! 0) + unat (b ! 1) * 16 + unat (b ! 2) * 256 + unat (b ! 3) * 4096
             + unat (b ! 4) * 65536 + unat (b ! 5) * 1048576"
    by (simp add: sum_lessThan_6 grid_ops_def tuple_index_def)
qed

lemma two_updates_first_only:
  assumes d1: "distinct (map fst es1)"
    and r1: "\<forall>e\<in>set es1. fst e < length nt \<and> address (snd e) < wsize (nt ! fst e)"
    and r0: "\<forall>e\<in>set es0. fst e < length nt \<and> address (snd e) < wsize (nt ! fst e)"
    and m1: "(s, i) \<in> set es1"
    and nm: "\<forall>j. (s, j) \<in> set es0 \<longrightarrow> address j \<noteq> address i"
  shows "\<exists>n1 n2. add_entries nt es1 x = Some n1 \<and> add_entries n1 es0 y = Some n2
           \<and> net_at n2 s i = Some (float_plus_assign (wvalue (nt ! s) (address i)) x)"
proof -
  from add_entries_defined [OF r1, of x] obtain n1 where n1: "add_entries nt es1 x = Some n1"
    by blast
  have "\<forall>e\<in>set es0. fst e < length n1 \<and> address (snd e) < wsize (n1 ! fst e)"
    using r0 by (simp add: add_entries_length [OF n1] add_entries_wsize [OF n1])
  from add_entries_defined [OF this, of y] obtain n2 where n2: "add_entries n1 es0 y = Some n2"
    by blast
  from add_entries_values [OF d1 n1 m1]
  have v1: "net_at n1 s i = Some (float_plus_assign (wvalue (nt ! s) (address i)) x)"
    by simp
  then have "s < length n2" "address i < wsize (n2 ! s)"
    by (simp_all add: net_at_Some add_entries_length [OF n2] add_entries_wsize [OF n2])
  then have "net_at n2 s i = Some (wvalue (n2 ! s) (address i))"
    by (simp add: net_at_Some)
  also have "wvalue (n2 ! s) (address i) = wvalue (n1 ! s) (address i)"
    using n2 nm by (rule add_entries_unchanged)
  also have "\<dots> = float_plus_assign (wvalue (nt ! s) (address i)) x"
    using v1 by (simp add: net_at_Some)
  finally show ?thesis
    using n1 n2 by blast
qed

lemma episode_amounts:
  "float_times_int (1 / 2) (int_sub (int_add 0 0) 3) = - (3 / 2)"
  "float_times_int (1 / 2) (int_sub (int_add 3 3) 3) = 3 / 2"
  "float_times_int (1 / 2) (int_sub (int_add 0 0) 0) = 0"
  "float_times_int (1 / 2) (int_sub (int_add 0 3) 0) = 3 / 2"
proof -
  have i: "int_sub (int_add 0 0) 3 = - 3" "int_sub (int_add 3 3) 3 = 3"
    "int_sub (int_add 0 0) 0 = 0" "int_sub (int_add 0 3) 0 = 3"
    using int_sub_add_small [of 0 0 3] int_sub_add_small [of 3 3 3]
      int_sub_add_small [of 0 0 0] int_sub_add_small [of 0 3 0]
    by simp_all
  have "float_times_int (1 / 2) (- 3) = - (3 / 2)" "float_times_int (1 / 2) 3 = 3 / 2"
    "float_times_int (1 / 2) 0 = 0"
    using to_float_of_int [of 3] to_float_of_int [of "- 3"] to_float_quarters [of 6]
      to_float_quarters [of "- 6"] to_float_of_int [of 0]
    by (simp_all add: float_times_int_def)
  with i show "float_times_int (1 / 2) (int_sub (int_add 0 0) 3) = - (3 / 2)"
    "float_times_int (1 / 2) (int_sub (int_add 3 3) 3) = 3 / 2"
    "float_times_int (1 / 2) (int_sub (int_add 0 0) 0) = 0"
    "float_times_int (1 / 2) (int_sub (int_add 0 3) 0) = 3 / 2"
    by simp_all
qed

lemma float_plus_assign_episode:
  "float_plus_assign (1 / 2) (- (3 / 2)) = - 1" "float_plus_assign (1 / 2) 0 = 1 / 2"
  using float_plus_assign_quarters [of "1 / 2" 2 "- (3 / 2)" "- 6"]
    float_plus_assign_quarters [of "1 / 2" 2 0 0]
  by simp_all

lemma double_to_int_examples:
  "double_to_int (7 / 2) = 3" "double_to_int (1 / 2) = 0" "double_to_int (- (7 / 2)) = - 3"
proof -
  have "\<lfloor>7 / 2 :: real\<rfloor> = 3" "\<lfloor>1 / 2 :: real\<rfloor> = 0" "\<lceil>- (7 / 2) :: real\<rceil> = - 3"
    by (simp_all add: floor_eq_iff ceiling_eq_iff)
  then show "double_to_int (7 / 2) = 3" "double_to_int (1 / 2) = 0"
    "double_to_int (- (7 / 2)) = - 3"
    by (simp_all add: double_to_int_def)
qed

lemma example_episode_updates:
  "\<exists>n1 n2. add_entries (example_net 8 65536)
               (four_entries grid_ops (example_board[1 := 0, 2 := 0])) (- (3 / 2)) = Some n1
      \<and> add_entries n1 (four_entries grid_ops (example_board[1 := 0])) (3 / 2) = Some n2
      \<and> net_at n2 0 (four_row_index grid_ops (example_board[1 := 0, 2 := 0]) 0) = Some (- 1)"
  "\<exists>n1 n2. add_entries (example_net 32 16777216)
               (six_entries grid_ops (example_board[1 := 0, 2 := 0])) 0 = Some n1
      \<and> add_entries n1 (six_entries grid_ops (example_board[1 := 0])) (3 / 2) = Some n2
      \<and> net_at n2 0 (six_index grid_ops (example_board[1 := 0, 2 := 0]) 0) = Some (1 / 2)"
proof -
  note g0 = nibble_grid_update [OF nibble_grid_example, of 1]
  note g1 = nibble_grid_update [OF g0, of 2]
  have a4: "\<forall>j. (0, j) \<in> set (four_entries grid_ops (example_board[1 := 0]))
      \<longrightarrow> address j \<noteq> address (four_row_index grid_ops (example_board[1 := 0, 2 := 0]) 0)"
    using first_addresses(1) [OF g0] first_addresses(1) [OF g1]
    by (auto dest!: first_entry_unique(1) simp: example_board_def)
  have a6: "\<forall>j. (0, j) \<in> set (six_entries grid_ops (example_board[1 := 0]))
      \<longrightarrow> address j \<noteq> address (six_index grid_ops (example_board[1 := 0, 2 := 0]) 0)"
    using first_addresses(2) [OF g0] first_addresses(2) [OF g1]
    by (auto dest!: first_entry_unique(2) simp: example_board_def)
  show "\<exists>n1 n2. add_entries (example_net 8 65536)
               (four_entries grid_ops (example_board[1 := 0, 2 := 0])) (- (3 / 2)) = Some n1
      \<and> add_entries n1 (four_entries grid_ops (example_board[1 := 0])) (3 / 2) = Some n2
      \<and> net_at n2 0 (four_row_index grid_ops (example_board[1 := 0, 2 := 0]) 0) = Some (- 1)"
    using two_updates_first_only [OF four_entries_distinct
        example_entries_in_range(1) [OF g1] example_entries_in_range(1) [OF g0]
        first_entry_member(1) a4, of "- (3 / 2)" "3 / 2"]
    by (simp add: example_net_shape float_plus_assign_episode)
  show "\<exists>n1 n2. add_entries (example_net 32 16777216)
               (six_entries grid_ops (example_board[1 := 0, 2 := 0])) 0 = Some n1
      \<and> add_entries n1 (six_entries grid_ops (example_board[1 := 0])) (3 / 2) = Some n2
      \<and> net_at n2 0 (six_index grid_ops (example_board[1 := 0, 2 := 0]) 0) = Some (1 / 2)"
    using two_updates_first_only [OF six_entries_distinct
        example_entries_in_range(2) [OF g1] example_entries_in_range(2) [OF g0]
        first_entry_member(2) a6, of 0 "3 / 2"]
    by (simp add: example_net_shape float_plus_assign_episode)
qed

lemma example_second_afterstate_values:
  "six_calculate_state_value grid_ops (example_net 32 16777216) (example_board[1 := 0, 2 := 0])
     = Some (1 / 2)"
  "four_calculate_state_value grid_ops (example_net 8 65536) (example_board[1 := 0, 2 := 0])
     = Some (1 / 2)"
  by (simp_all add: example_value_six example_value_four nibble_grid_update nibble_grid_example)

theorem episode_values_are_truncated_witness:
  "play (four_take_action grid_ops) [example_board, example_board[1 := 0], replicate 16 0]
      (open_episode (example_agent (example_net 8 65536)))
     = Some (2, (example_agent (example_net 8 65536))
           \<lparr>episode_boards := [example_board[1 := 0], example_board[1 := 0, 2 := 0]],
            episode_rewards := [3, 3],
            episode_values := [3, 3]\<rparr>)
   \<and> map (\<lambda>a. double_to_int (the (four_calculate_state_value grid_ops (example_net 8 65536) a)))
        [example_board[1 := 0], example_board[1 := 0, 2 := 0]] = [0, 0]
   \<and> four_close_episode grid_ops
        ((example_agent (example_net 8 65536))
           \<lparr>episode_boards := [example_board[1 := 0], example_board[1 := 0, 2 := 0]],
            episode_rewards := [3, 3],
            episode_values := [3, 3]\<rparr>)
     = Some ((example_agent (example_net 8 65536))
           \<lparr>episode_boards := [example_board[1 := 0], example_board[1 := 0, 2 := 0]],
            episode_rewards := [3, 3, 0],
            episode_values := [3, 3, 0],
            net := the (add_entries
                     (the (add_entries (example_net 8 65536)
                             (four_entries grid_ops (example_board[1 := 0, 2 := 0]))
                             (- (3 / 2))))
                     (four_entries grid_ops (example_board[1 := 0])) (3 / 2))\<rparr>)
   \<and> net_at (the (add_entries
                (the (add_entries (example_net 8 65536)
                        (four_entries grid_ops (example_board[1 := 0, 2 := 0])) (- (3 / 2))))
                (four_entries grid_ops (example_board[1 := 0])) (3 / 2)))
        0 (four_row_index grid_ops (example_board[1 := 0, 2 := 0]) 0) = Some (- 1)
   \<and> play (six_take_action grid_ops) [example_board, example_board[1 := 0], replicate 16 0]
      (open_episode (example_agent (example_net 32 16777216)))
     = Some (2, (example_agent (example_net 32 16777216))
           \<lparr>episode_boards := [example_board[1 := 0], example_board[1 := 0, 2 := 0]],
            episode_rewards := [3, 3],
            episode_values := [0, 0]\<rparr>)
   \<and> map (\<lambda>a. double_to_int
            (the (six_calculate_state_value grid_ops (example_net 32 16777216) a)))
        [example_board[1 := 0], example_board[1 := 0, 2 := 0]] = [0, 0]
   \<and> six_close_episode grid_ops
        ((example_agent (example_net 32 16777216))
           \<lparr>episode_boards := [example_board[1 := 0], example_board[1 := 0, 2 := 0]],
            episode_rewards := [3, 3],
            episode_values := [0, 0]\<rparr>)
     = Some ((example_agent (example_net 32 16777216))
           \<lparr>episode_boards := [example_board[1 := 0], example_board[1 := 0, 2 := 0]],
            episode_rewards := [3, 3, 0],
            episode_values := [0, 0, 0],
            net := the (add_entries
                     (the (add_entries (example_net 32 16777216)
                             (six_entries grid_ops (example_board[1 := 0, 2 := 0])) 0))
                     (six_entries grid_ops (example_board[1 := 0])) (3 / 2))\<rparr>)
   \<and> net_at (the (add_entries
                (the (add_entries (example_net 32 16777216)
                        (six_entries grid_ops (example_board[1 := 0, 2 := 0])) 0))
                (six_entries grid_ops (example_board[1 := 0])) (3 / 2)))
        0 (six_index grid_ops (example_board[1 := 0, 2 := 0]) 0) = Some (1 / 2)
   \<and> double_to_int (7 / 2) = 3 \<and> double_to_int (- (7 / 2)) = - 3"
proof -
  let ?a4 = "example_agent (example_net 8 65536)"
  let ?s4 = "?a4\<lparr>episode_boards := [example_board[1 := 0], example_board[1 := 0, 2 := 0]],
            episode_rewards := [3, 3], episode_values := [3, 3]\<rparr>"
  let ?a6 = "example_agent (example_net 32 16777216)"
  let ?s6 = "?a6\<lparr>episode_boards := [example_board[1 := 0], example_board[1 := 0, 2 := 0]],
            episode_rewards := [3, 3], episode_values := [0, 0]\<rparr>"
  let ?bs = "[example_board, example_board[1 := 0], replicate 16 0]"
  note t4 = episode_values_are_truncated [of grid_ops ?bs ?a4 2 ?s4 "7 / 2"]
  note t6 = episode_values_are_truncated [of grid_ops ?bs ?a6 2 ?s6 "- (7 / 2)"]
  from example_episode_updates(1) obtain m1 m2
    where m: "add_entries (example_net 8 65536)
               (four_entries grid_ops (example_board[1 := 0, 2 := 0])) (- (3 / 2)) = Some m1"
      "add_entries m1 (four_entries grid_ops (example_board[1 := 0])) (3 / 2) = Some m2"
      "net_at m2 0 (four_row_index grid_ops (example_board[1 := 0, 2 := 0]) 0) = Some (- 1)"
    by blast
  from example_episode_updates(2) obtain n1 n2
    where n: "add_entries (example_net 32 16777216)
               (six_entries grid_ops (example_board[1 := 0, 2 := 0])) 0 = Some n1"
      "add_entries n1 (six_entries grid_ops (example_board[1 := 0])) (3 / 2) = Some n2"
      "net_at n2 0 (six_index grid_ops (example_board[1 := 0, 2 := 0]) 0) = Some (1 / 2)"
    by blast
  have v4: "map (\<lambda>a. double_to_int
                 (the (four_calculate_state_value grid_ops (example_net 8 65536) a)))
        [example_board[1 := 0], example_board[1 := 0, 2 := 0]] = [0, 0]"
    using example_afterstate_values(2) [of 1] example_second_afterstate_values(2)
    by (simp add: double_to_int_examples)
  have v6: "map (\<lambda>a. double_to_int
                 (the (six_calculate_state_value grid_ops (example_net 32 16777216) a)))
        [example_board[1 := 0], example_board[1 := 0, 2 := 0]] = [0, 0]"
    using example_afterstate_values(1) [of 1] example_second_afterstate_values(1)
    by (simp add: double_to_int_examples)
  from t4 example_episode(1)
  have "four_close_episode grid_ops ?s4 =
         (case td_backward (four_entries grid_ops) (alpha ?a4) (episode_boards ?s4)
                 (episode_values ?s4 @ [0]) (episode_rewards ?s4 @ [0]) (net ?a4) of
            None \<Rightarrow> None
          | Some nt \<Rightarrow>
              Some (?s4\<lparr>episode_rewards := episode_rewards ?s4 @ [0],
                       episode_values := episode_values ?s4 @ [0],
                       net := nt\<rparr>))"
    by (simp del: play.simps)
  then have c4: "four_close_episode grid_ops ?s4
      = Some (?s4\<lparr>episode_rewards := [3, 3, 0], episode_values := [3, 3, 0], net := m2\<rparr>)"
    using m(1,2) by (simp add: td_backward_two episode_amounts example_agent_def)
  from t6 example_episode(2)
  have "six_close_episode grid_ops ?s6 =
         (case td_backward (six_entries grid_ops) (alpha ?a6) (episode_boards ?s6)
                 (episode_values ?s6 @ [0]) (episode_rewards ?s6 @ [0]) (net ?a6) of
            None \<Rightarrow> None
          | Some nt \<Rightarrow>
              Some (?s6\<lparr>episode_rewards := episode_rewards ?s6 @ [0],
                       episode_values := episode_values ?s6 @ [0],
                       net := nt\<rparr>))"
    by (simp del: play.simps)
  then have c6: "six_close_episode grid_ops ?s6
      = Some (?s6\<lparr>episode_rewards := [3, 3, 0], episode_values := [0, 0, 0], net := n2\<rparr>)"
    using n(1,2) by (simp add: td_backward_two episode_amounts example_agent_def)
  have "\<lfloor>7 / 2 :: real\<rfloor> = 3" "\<lceil>- (7 / 2) :: real\<rceil> = - 3"
    by (simp_all add: floor_eq_iff ceiling_eq_iff)
  with t4 t6 have d: "double_to_int (7 / 2) = 3" "double_to_int (- (7 / 2)) = - 3"
    by simp_all
  show ?thesis
    using example_episode v4 v6 c4 c6 m n d by (simp del: play.simps add: example_agent_def)
qed

end
